theory Spec2Isabelle
  imports Complex_Main
begin

section \<open>Data model\<close>

text \<open>
  The program (\<^verbatim>\<open>app.py\<close>) holds one pandas \<^verbatim>\<open>DataFrame\<close> and passes it through
  \<^verbatim>\<open>clean_column_names\<close>, \<^verbatim>\<open>remove_duplicates\<close> and \<^verbatim>\<open>handle_missing_values\<close>.
  A data frame is an ordered sequence of labelled columns of equal length; every column
  has one dtype.  Three kinds of dtype matter to the program: the numeric ones (selected by
  \<^verbatim>\<open>select_dtypes(include=[np.number])\<close>), \<^verbatim>\<open>bool\<close> (not a subtype of
  \<^verbatim>\<open>np.number\<close>) and \<^verbatim>\<open>object\<close> (text, and any mixture of values).

  A finite number is the rational it denotes; the two infinities of \<^verbatim>\<open>float64\<close> are
  cells of their own, and the missing value (\<^verbatim>\<open>NaN\<close>) is the cell \<open>Missing\<close>.  The
  arithmetic of the program is the arithmetic of \<^verbatim>\<open>float64\<close>: every sum and every
  quotient is rounded to the nearest \<^verbatim>\<open>float64\<close> value, see below.
\<close>

datatype cell = Num rat | PosInf | NegInf | Text string | Bool bool | Missing

datatype dtype = Number | Boolean | Object

record column =
  name :: string
  dtype :: dtype
  cells :: "cell list"

type_synonym table = "column list"

definition ncols :: "table \<Rightarrow> nat" where
  "ncols t = length t"

definition nrows :: "table \<Rightarrow> nat" where
  \<comment> \<open>\<^verbatim>\<open>df.shape[0]\<close>; a frame without columns, as the readers build it, has no rows\<close>
  "nrows t = (case t of [] \<Rightarrow> 0 | c # _ \<Rightarrow> length (cells c))"

definition row_at :: "table \<Rightarrow> nat \<Rightarrow> cell list" where
  "row_at t i = map (\<lambda>c. cells c ! i) t"

definition rows :: "table \<Rightarrow> cell list list" where
  "rows t = map (row_at t) [0..<nrows t]"

definition well_typed :: "column \<Rightarrow> bool" where
  \<comment> \<open>what a dtype admits: a numeric column holds numbers, infinities and \<^verbatim>\<open>NaN\<close>,
      a \<^verbatim>\<open>bool\<close> column holds booleans and cannot hold a missing value, an
      \<^verbatim>\<open>object\<close> column holds any values\<close>
  "well_typed c = (case dtype c of
       Number \<Rightarrow> list_all (\<lambda>x. case x of Text _ \<Rightarrow> False | Bool _ \<Rightarrow> False | _ \<Rightarrow> True) (cells c)
     | Boolean \<Rightarrow> list_all (\<lambda>x. case x of Bool _ \<Rightarrow> True | _ \<Rightarrow> False) (cells c)
     | Object \<Rightarrow> True)"

definition rectangular :: "table \<Rightarrow> bool" where
  \<comment> \<open>all columns have the length of the frame\<close>
  "rectangular t = list_all (\<lambda>c. length (cells c) = nrows t) t"


section \<open>Characters and the string methods of pandas\<close>

text \<open>
  Column labels are Python strings.  They are modelled as strings over the code points
  U+0000 to U+00FF, one \<^typ>\<open>char\<close> per code point, with Python's own classification of
  these code points: \<^verbatim>\<open>str.isspace\<close> (used by \<^verbatim>\<open>str.strip()\<close> and by \<^verbatim>\<open>\s\<close>),
  the word characters of \<^verbatim>\<open>\w\<close> (alphanumeric or underscore) and \<^verbatim>\<open>str.lower\<close>.
\<close>

definition is_space :: "char \<Rightarrow> bool" where
  \<comment> \<open>TAB, LF, VT, FF, CR, FS, GS, RS, US, SPACE, NEL, NBSP\<close>
  "is_space c = (let n = (of_char c :: nat) in
     (9 \<le> n \<and> n \<le> 13) \<or> (28 \<le> n \<and> n \<le> 32) \<or> n = 133 \<or> n = 160)"

definition is_word :: "char \<Rightarrow> bool" where
  \<comment> \<open>\<^verbatim>\<open>\w\<close> on \<^verbatim>\<open>str\<close>: digits, letters, underscore, and the letters and numeric
      characters of the Latin-1 supplement\<close>
  "is_word c = (let n = (of_char c :: nat) in
     (48 \<le> n \<and> n \<le> 57) \<or> (65 \<le> n \<and> n \<le> 90) \<or> n = 95 \<or> (97 \<le> n \<and> n \<le> 122)
     \<or> n = 170 \<or> n = 178 \<or> n = 179 \<or> n = 181 \<or> n = 185 \<or> n = 186
     \<or> (188 \<le> n \<and> n \<le> 190) \<or> (192 \<le> n \<and> n \<le> 214) \<or> (216 \<le> n \<and> n \<le> 246)
     \<or> 248 \<le> n)"

definition lower_chr :: "char \<Rightarrow> char" where
  \<comment> \<open>\<^verbatim>\<open>str.lower\<close> on one code point: A-Z and the capital letters U+00C0-U+00DE
      (without the multiplication sign U+00D7) move up by 32\<close>
  "lower_chr c = (let n = (of_char c :: nat) in
     if (65 \<le> n \<and> n \<le> 90) \<or> (192 \<le> n \<and> n \<le> 214) \<or> (216 \<le> n \<and> n \<le> 222)
     then char_of (n + 32) else c)"

definition str_strip :: "string \<Rightarrow> string" where
  \<comment> \<open>\<^verbatim>\<open>.str.strip()\<close>: leading and trailing whitespace removed\<close>
  "str_strip s = rev (dropWhile is_space (rev (dropWhile is_space s)))"

definition str_lower :: "string \<Rightarrow> string" where
  \<comment> \<open>\<^verbatim>\<open>.str.lower()\<close>\<close>
  "str_lower s = map lower_chr s"

definition str_replace_chr :: "char \<Rightarrow> char \<Rightarrow> string \<Rightarrow> string" where
  \<comment> \<open>\<^verbatim>\<open>.str.replace(pat, repl)\<close> for a pattern and a replacement of one character
      each: every occurrence is replaced\<close>
  "str_replace_chr pat repl s = map (\<lambda>c. if c = pat then repl else c) s"

definition str_remove_special :: "string \<Rightarrow> string" where
  \<comment> \<open>\<^verbatim>\<open>.str.replace('[^\w\s]', '', regex=True)\<close>: every character that is neither a
      word character nor whitespace is deleted\<close>
  "str_remove_special s = filter (\<lambda>c. is_word c \<or> is_space c) s"


section \<open>Column name cleaning\<close>

definition clean_name :: "string \<Rightarrow> string" where
  \<comment> \<open>the two assignments of \<^verbatim>\<open>clean_column_names\<close> on one label\<close>
  "clean_name s =
     str_remove_special (str_replace_chr (CHR '' '') (CHR ''_'') (str_lower (str_strip s)))"

definition clean_column_names :: "table \<Rightarrow> table" where
  \<comment> \<open>\<^verbatim>\<open>df.columns = ...\<close> replaces the labels by position and leaves the data alone\<close>
  "clean_column_names df = map (\<lambda>c. c\<lparr>name := clean_name (name c)\<rparr>) df"

text \<open>
  The transform as the specification words it: trim, lowercase, every run of whitespace
  replaced by one underscore, then every character that is not alphanumeric, underscore or
  whitespace removed.
\<close>

function collapse_whitespace :: "string \<Rightarrow> string" where
  "collapse_whitespace [] = []"
| "collapse_whitespace (c # cs) =
     (if is_space c then CHR ''_'' # collapse_whitespace (dropWhile is_space cs)
      else c # collapse_whitespace cs)"
  by pat_completeness auto
termination
  by (relation "measure length") (auto simp: le_imp_less_Suc length_dropWhile_le)

definition spec_normalize_name :: "string \<Rightarrow> string" where
  "spec_normalize_name s =
     filter (\<lambda>c. is_word c \<or> is_space c) (collapse_whitespace (map lower_chr (str_strip s)))"

text \<open>
  The transform the code performs, read character by character over the trimmed label:
  a space becomes one underscore, any other whitespace character and any word character is
  kept (in lower case), everything else is dropped.
\<close>

definition clean_chr :: "char \<Rightarrow> string" where
  "clean_chr c = (let l = lower_chr c in
     if l = CHR '' '' then ''_''
     else if is_word l \<or> is_space l then [l]
     else [])"

definition per_character_name :: "string \<Rightarrow> string" where
  "per_character_name s = concat (map clean_chr (str_strip s))"

definition is_lower_digit_underscore :: "char \<Rightarrow> bool" where
  \<comment> \<open>the character class \<^verbatim>\<open>[a-z0-9_]\<close>\<close>
  "is_lower_digit_underscore c = (let n = (of_char c :: nat) in
     (97 \<le> n \<and> n \<le> 122) \<or> (48 \<le> n \<and> n \<le> 57) \<or> n = 95)"

definition is_ascii :: "char \<Rightarrow> bool" where
  "is_ascii c = ((of_char c :: nat) < 128)"

definition edge_whitespace :: "string \<Rightarrow> bool" where
  \<comment> \<open>the string begins or ends with a whitespace character\<close>
  "edge_whitespace s = (s \<noteq> [] \<and> (is_space (hd s) \<or> is_space (last s)))"

section \<open>The arithmetic of float64\<close>

text \<open>
  \<^verbatim>\<open>Series.mean()\<close> and \<^verbatim>\<open>Series.median()\<close> compute in \<^verbatim>\<open>float64\<close>.  The result of
  an operation is the exact result rounded to the nearest value with a 53-bit significand,
  ties to the even significand; a result of magnitude \<open>2^1024\<close> or more after rounding is
  an infinity, a result below \<open>2^-1022\<close> is rounded on the grid of the subnormal numbers.
  The sign of zero is not modelled.
\<close>

definition pow2 :: "int \<Rightarrow> rat" where
  "pow2 e = (if 0 \<le> e then 2 ^ nat e else 1 / 2 ^ nat (- e))"

function log2_ge1 :: "rat \<Rightarrow> int" where
  \<comment> \<open>for \<open>1 \<le> q\<close>: the \<open>e\<close> with \<open>2^e \<le> q < 2^(e+1)\<close>\<close>
  "log2_ge1 q = (if q < 2 then 0 else 1 + log2_ge1 (q / 2))"
  by pat_completeness auto
termination
proof (relation "measure (\<lambda>q. nat \<lfloor>q\<rfloor>)")
  show "wf (measure (\<lambda>q::rat. nat \<lfloor>q\<rfloor>))"
    by simp
next
  fix q :: rat
  assume "\<not> q < 2"
  then have "\<lfloor>q / 2\<rfloor> < \<lfloor>q\<rfloor>" "0 < \<lfloor>q\<rfloor>"
    by linarith+
  then show "(q / 2, q) \<in> measure (\<lambda>q. nat \<lfloor>q\<rfloor>)"
    by simp
qed

declare log2_ge1.simps [simp del]

definition ilog2 :: "rat \<Rightarrow> int" where
  \<comment> \<open>for \<open>0 < q\<close>: the \<open>e\<close> with \<open>2^e \<le> q < 2^(e+1)\<close>\<close>
  "ilog2 q = (if 1 \<le> q then log2_ge1 q
              else let k = log2_ge1 (1 / q) in if pow2 k = 1 / q then - k else - k - 1)"

definition round_half_even :: "rat \<Rightarrow> int" where
  "round_half_even x = (let f = \<lfloor>x\<rfloor>; r = x - of_int f in
     if r < 1 / 2 then f else if 1 / 2 < r then f + 1 else if even f then f else f + 1)"

definition f64_round :: "rat \<Rightarrow> cell" where
  \<comment> \<open>the \<^verbatim>\<open>float64\<close> value of an exact result\<close>
  "f64_round q = (if q = 0 then Num 0 else
     let a = \<bar>q\<bar>;
         e = max (ilog2 a) (- 1022);
         ulp = pow2 (e - 52);
         r = of_int (round_half_even (a / ulp)) * ulp
     in if pow2 1024 \<le> r then (if 0 < q then PosInf else NegInf)
        else Num (if 0 < q then r else - r))"

fun f64_add :: "cell \<Rightarrow> cell \<Rightarrow> cell" where
  \<comment> \<open>\<^verbatim>\<open>a + b\<close>; \<^verbatim>\<open>inf + (-inf)\<close> is \<^verbatim>\<open>NaN\<close>, and \<^verbatim>\<open>NaN\<close> stays\<close>
  "f64_add (Num a) (Num b) = f64_round (a + b)"
| "f64_add PosInf (Num b) = PosInf"
| "f64_add (Num a) PosInf = PosInf"
| "f64_add PosInf PosInf = PosInf"
| "f64_add NegInf (Num b) = NegInf"
| "f64_add (Num a) NegInf = NegInf"
| "f64_add NegInf NegInf = NegInf"
| "f64_add _ _ = Missing"

fun f64_div :: "cell \<Rightarrow> rat \<Rightarrow> cell" where
  \<comment> \<open>\<^verbatim>\<open>a / n\<close> for a positive count \<open>n\<close>\<close>
  "f64_div (Num a) n = f64_round (a / n)"
| "f64_div PosInf n = PosInf"
| "f64_div NegInf n = NegInf"
| "f64_div _ n = Missing"

text \<open>
  \<^verbatim>\<open>ndarray.sum()\<close> on a \<^verbatim>\<open>float64\<close> array is numpy's pairwise summation: fewer than
  8 elements are added from left to right; up to 128 elements are added into 8 partial
  sums, which are added as a tree, and the last \<open>n mod 8\<close> elements are added to the
  result; a longer array is split in two near the middle, at a multiple of 8.  (This is
  the sum pandas takes when the optional library \<^verbatim>\<open>bottleneck\<close> is not installed.)
\<close>

function add_blocks :: "cell list \<Rightarrow> cell list \<Rightarrow> cell list \<times> cell list" where
  "add_blocks r xs =
     (if length xs < 8 then (r, xs)
      else add_blocks (map (\<lambda>(a, b). f64_add a b) (zip r (take 8 xs))) (drop 8 xs))"
  by pat_completeness auto
termination
  by (relation "measure (\<lambda>(r, xs). length xs)") auto

declare add_blocks.simps [simp del]

definition unrolled_sum :: "cell list \<Rightarrow> cell" where
  "unrolled_sum xs =
     (let (r, rest) = add_blocks (take 8 xs) (drop 8 xs);
          res = f64_add (f64_add (f64_add (r ! 0) (r ! 1)) (f64_add (r ! 2) (r ! 3)))
                        (f64_add (f64_add (r ! 4) (r ! 5)) (f64_add (r ! 6) (r ! 7)))
      in foldl f64_add res rest)"

definition split_point :: "nat \<Rightarrow> nat" where
  "split_point n = n div 2 - (n div 2) mod 8"

function pairwise_sum :: "cell list \<Rightarrow> cell" where
  "pairwise_sum xs =
     (if length xs < 8 then foldl f64_add (Num 0) xs
      else if length xs \<le> 128 then unrolled_sum xs
      else f64_add (pairwise_sum (take (split_point (length xs)) xs))
                   (pairwise_sum (drop (split_point (length xs)) xs)))"
  by pat_completeness auto
termination
proof (relation "measure length")
  show "wf (measure (length :: cell list \<Rightarrow> nat))"
    by simp
next
  fix xs :: "cell list"
  assume "\<not> length xs < 8" and big: "\<not> length xs \<le> 128"
  have "(length xs div 2) mod 8 < 8"
    by simp
  moreover from big have "64 \<le> length xs div 2" "length xs div 2 < length xs"
    by simp_all
  ultimately have s: "0 < split_point (length xs)" "split_point (length xs) < length xs"
    unfolding split_point_def by linarith+
  from s show "(take (split_point (length xs)) xs, xs) \<in> measure length"
    by simp
  from s show "(drop (split_point (length xs)) xs, xs) \<in> measure length"
    by simp
qed

declare pairwise_sum.simps [simp del]

fun f64_le :: "cell \<Rightarrow> cell \<Rightarrow> bool" where
  \<comment> \<open>the order of the numbers and the infinities\<close>
  "f64_le (Num a) (Num b) = (a \<le> b)"
| "f64_le NegInf _ = True"
| "f64_le _ PosInf = True"
| "f64_le _ _ = False"

fun insert_sorted :: "cell \<Rightarrow> cell list \<Rightarrow> cell list" where
  "insert_sorted x [] = [x]"
| "insert_sorted x (y # ys) = (if f64_le x y then x # y # ys else y # insert_sorted x ys)"

definition sort_cells :: "cell list \<Rightarrow> cell list" where
  "sort_cells xs = foldr insert_sorted xs []"


section \<open>Row selection, duplicates and missing values in pandas\<close>

definition take_rows :: "nat list \<Rightarrow> table \<Rightarrow> table" where
  \<comment> \<open>positional row selection: pandas turns a boolean row mask into the positions of its
      true entries and takes these rows from every column\<close>
  "take_rows idx df = map (\<lambda>c. c\<lparr>cells := map (\<lambda>i. cells c ! i) idx\<rparr>) df"

definition nonzero :: "bool list \<Rightarrow> nat list" where
  "nonzero flags = filter (\<lambda>i. flags ! i) [0..<length flags]"

definition head :: "table \<Rightarrow> table" where
  \<comment> \<open>\<^verbatim>\<open>df.head()\<close>: the first five rows\<close>
  "head df = take_rows [0..<min 5 (nrows df)] df"

definition cell_key :: "cell \<Rightarrow> cell" where
  \<comment> \<open>pandas hashes and compares the cells of a column as Python does its objects:
      \<^verbatim>\<open>True == 1\<close> and \<^verbatim>\<open>False == 0\<close>; missing values count as equal to each other\<close>
  "cell_key x = (case x of Bool b \<Rightarrow> Num (if b then 1 else 0) | _ \<Rightarrow> x)"

definition row_key :: "cell list \<Rightarrow> cell list" where
  "row_key r = map cell_key r"

fun duplicated_from :: "cell list list \<Rightarrow> cell list list \<Rightarrow> bool list" where
  \<comment> \<open>one pass over the rows with the keys of the rows seen so far; a row is marked when
      its key was seen before\<close>
  "duplicated_from seen [] = []"
| "duplicated_from seen (r # rs) = (row_key r \<in> set seen) # duplicated_from (row_key r # seen) rs"

definition duplicated :: "table \<Rightarrow> bool list" where
  \<comment> \<open>\<^verbatim>\<open>df.duplicated()\<close> with \<^verbatim>\<open>keep='first'\<close> over all columns\<close>
  "duplicated df = duplicated_from [] (rows df)"

definition drop_duplicates :: "table \<Rightarrow> table" where
  \<comment> \<open>\<^verbatim>\<open>df.drop_duplicates()\<close> is \<^verbatim>\<open>df[~df.duplicated()]\<close>\<close>
  "drop_duplicates df = take_rows (nonzero (map Not (duplicated df))) df"

definition isna :: "cell \<Rightarrow> bool" where
  "isna x = (x = Missing)"

definition has_missing :: "table \<Rightarrow> bool" where
  \<comment> \<open>\<^verbatim>\<open>df.isnull().values.any()\<close>\<close>
  "has_missing df = list_ex (\<lambda>c. list_ex isna (cells c)) df"

definition dropna :: "table \<Rightarrow> table" where
  \<comment> \<open>\<^verbatim>\<open>df.dropna()\<close>: the rows without a missing value in any column are kept\<close>
  "dropna df = take_rows (nonzero (map (\<lambda>r. \<not> list_ex isna r) (rows df))) df"

definition fillna :: "cell \<Rightarrow> cell list \<Rightarrow> cell list" where
  \<comment> \<open>\<^verbatim>\<open>fillna(value)\<close> on one column; filling with \<^verbatim>\<open>NaN\<close> (the cell \<open>Missing\<close>)
      changes nothing\<close>
  "fillna v xs = map (\<lambda>x. if isna x then v else x) xs"

definition fillna_frame :: "cell \<Rightarrow> table \<Rightarrow> table" where
  \<comment> \<open>\<^verbatim>\<open>DataFrame.fillna(value)\<close> with one value: every column is filled\<close>
  "fillna_frame v df = map (\<lambda>c. c\<lparr>cells := fillna v (cells c)\<rparr>) df"

definition numeric_columns :: "table \<Rightarrow> string list" where
  \<comment> \<open>\<^verbatim>\<open>df.select_dtypes(include=[np.number]).columns\<close>\<close>
  "numeric_columns df = map name (filter (\<lambda>c. dtype c = Number) df)"

datatype exn = KeyError string | TypeError | Fault string

definition is_text :: "cell \<Rightarrow> bool" where
  "is_text x = (case x of Text _ \<Rightarrow> True | _ \<Rightarrow> False)"

definition as_float :: "cell \<Rightarrow> cell" where
  \<comment> \<open>the \<^verbatim>\<open>float64\<close> value of a number or of a boolean\<close>
  "as_float x = (case x of
       Num v \<Rightarrow> f64_round v
     | Bool b \<Rightarrow> Num (if b then 1 else 0)
     | _ \<Rightarrow> x)"

definition column_mean :: "column \<Rightarrow> exn + cell" where
  \<comment> \<open>\<^verbatim>\<open>mean()\<close> of one column, \<^verbatim>\<open>skipna=True\<close>: the missing cells count as 0 in the sum,
      which is divided by the number of the other cells; \<^verbatim>\<open>NaN\<close> when there is none.
      A column of another dtype is added from left to right; text cannot be converted.\<close>
  "column_mean c =
     (if list_ex is_text (cells c) then Inl TypeError
      else let values = map (\<lambda>x. if isna x then Num 0 else as_float x) (cells c);
               count = length (filter (\<lambda>x. \<not> isna x) (cells c));
               the_sum = (if dtype c = Number then pairwise_sum values
                          else foldl f64_add (Num 0) values)
           in Inr (if count = 0 then Missing else f64_div the_sum (of_nat count)))"

definition column_median :: "column \<Rightarrow> exn + cell" where
  \<comment> \<open>\<^verbatim>\<open>median()\<close> of one column, \<^verbatim>\<open>skipna=True\<close>: the middle of the sorted cells that
      are not missing, half the sum of the two middle ones for an even count, \<^verbatim>\<open>NaN\<close>
      when there is none; text cannot be converted.  (Of a column of dtype \<^verbatim>\<open>object\<close>
      that mixes booleans and numbers pandas gives the median or raises, depending on the
      version and on the Python types of the numbers; here it gives the median.)\<close>
  "column_median c =
     (if list_ex is_text (cells c) then Inl TypeError
      else let values = sort_cells (map as_float (filter (\<lambda>x. \<not> isna x) (cells c)));
               n = length values
           in Inr (if n = 0 then Missing
                   else if odd n then values ! (n div 2)
                   else f64_div (f64_add (values ! (n div 2 - 1)) (values ! (n div 2))) 2))"

definition getitem :: "table \<Rightarrow> string \<Rightarrow> exn + column list" where
  \<comment> \<open>\<^verbatim>\<open>df[col]\<close>: the column of that label, all of them when the label is repeated (then
      the value is a frame); an absent label raises\<close>
  "getitem df col = (case filter (\<lambda>c. name c = col) df of
       [] \<Rightarrow> Inl (KeyError col)
     | cs \<Rightarrow> Inr cs)"

fun frame_stat :: "(column \<Rightarrow> exn + cell) \<Rightarrow> column list \<Rightarrow> exn + cell list" where
  \<comment> \<open>\<^verbatim>\<open>df[col].mean()\<close>: one value for each column of \<^verbatim>\<open>df[col]\<close>\<close>
  "frame_stat stat [] = Inr []"
| "frame_stat stat (c # cs) =
     (case stat c of
        Inl e \<Rightarrow> Inl e
      | Inr v \<Rightarrow> (case frame_stat stat cs of Inl e \<Rightarrow> Inl e | Inr vs \<Rightarrow> Inr (v # vs)))"

definition fill_values :: "cell list \<Rightarrow> cell list \<Rightarrow> cell list" where
  \<comment> \<open>\<^verbatim>\<open>fillna\<close> with the values of \<^verbatim>\<open>df[col].mean()\<close>: one value for a single column;
      for a frame pandas fills with each value in turn, under the label they share, so
      the first value that is not \<^verbatim>\<open>NaN\<close> fills every missing cell\<close>
  "fill_values vs xs = foldl (\<lambda>ys v. fillna v ys) xs vs"

definition setitem_filled :: "table \<Rightarrow> string \<Rightarrow> cell list \<Rightarrow> table" where
  \<comment> \<open>\<^verbatim>\<open>df[col] = df[col].fillna(values)\<close>: every column of that label is replaced\<close>
  "setitem_filled df col vs =
     map (\<lambda>c. if name c = col then c\<lparr>cells := fill_values vs (cells c)\<rparr> else c) df"

fun fill_each :: "(column \<Rightarrow> exn + cell) \<Rightarrow> string list \<Rightarrow> table \<Rightarrow> exn + table" where
  \<comment> \<open>\<^verbatim>\<open>for col in cols: df[col] = df[col].fillna(df[col].mean())\<close>\<close>
  "fill_each stat [] df = Inr df"
| "fill_each stat (col # cols) df =
     (case getitem df col of
        Inl e \<Rightarrow> Inl e
      | Inr cs \<Rightarrow>
          (case frame_stat stat cs of
             Inl e \<Rightarrow> Inl e
           | Inr vs \<Rightarrow> fill_each stat cols (setitem_filled df col vs)))"

definition fill_column :: "(column \<Rightarrow> exn + cell) \<Rightarrow> column \<Rightarrow> column" where
  \<comment> \<open>one column filled with its own statistic\<close>
  "fill_column stat c =
     (case stat c of Inl e \<Rightarrow> c | Inr v \<Rightarrow> c\<lparr>cells := fillna v (cells c)\<rparr>)"


section \<open>The cleaning functions of the program\<close>

definition digit_chr :: "nat \<Rightarrow> char" where
  "digit_chr d = char_of (48 + d)"

function show_nat :: "nat \<Rightarrow> string" where
  \<comment> \<open>the decimal digits of a non-negative integer, as an f-string prints it\<close>
  "show_nat n = (if n < 10 then [digit_chr n] else show_nat (n div 10) @ [digit_chr (n mod 10)])"
  by pat_completeness auto
termination
  by (relation "measure id") auto

datatype ui_event =
    SubHeader string
  | Dataframe table
  | Columns nat
  | Checkbox string
  | Selectbox string "string list"
  | Info string
  | Chart string
  | Download string string string string
  | Error string

type_synonym 'a ui = "ui_event list \<Rightarrow> ui_event list \<times> (exn + 'a)"

definition emit :: "(ui_event \<Rightarrow> exn option) \<Rightarrow> ui_event \<Rightarrow> unit ui" where
  \<comment> \<open>a Streamlit call: it adds one element to the page, or raises and adds nothing\<close>
  "emit render el page =
     (case render el of None \<Rightarrow> (page @ [el], Inr ()) | Some e \<Rightarrow> (page, Inl e))"

definition lift :: "exn + 'a \<Rightarrow> 'a ui" where
  \<comment> \<open>a computation that shows nothing: it returns or raises\<close>
  "lift r page = (page, r)"

definition bind_ui :: "'a ui \<Rightarrow> ('a \<Rightarrow> 'b ui) \<Rightarrow> 'b ui" where
  \<comment> \<open>sequencing: an exception of the first part skips the second\<close>
  "bind_ui m f page = (case m page of
       (page', Inl e) \<Rightarrow> (page', Inl e)
     | (page', Inr x) \<Rightarrow> f x page')"

definition removed_message :: "table \<Rightarrow> table \<Rightarrow> string" where
  \<comment> \<open>\<^verbatim>\<open>f"Removed {original_shape - df.shape[0]} duplicate rows"\<close>\<close>
  "removed_message df df' = ''Removed '' @ show_nat (nrows df - nrows df') @ '' duplicate rows''"

definition remove_duplicates :: "(ui_event \<Rightarrow> exn option) \<Rightarrow> table \<Rightarrow> table ui" where
  "remove_duplicates render df =
     (let df' = drop_duplicates df
      in bind_ui (emit render (Info (removed_message df df'))) (\<lambda>_. lift (Inr df')))"

definition handle_missing_values :: "table \<Rightarrow> string \<Rightarrow> exn + table" where
  "handle_missing_values df method =
     (if method = ''Remove rows'' then Inr (dropna df)
      else if method = ''Fill with mean'' then fill_each column_mean (numeric_columns df) df
      else if method = ''Fill with median'' then fill_each column_median (numeric_columns df) df
      else if method = ''Fill with zero'' then Inr (fillna_frame (Num 0) df)
      else Inr df)"


section \<open>The upload pipeline\<close>

text \<open>
  The body of \<^verbatim>\<open>if uploaded_file is not None: try: ... except Exception as e:\<close>.
  The file readers, the plotting library, the two encoders and Streamlit are collaborators
  that return or raise: \<open>render\<close> tells whether the Streamlit call for an element raises,
  \<open>describe\<close> is \<^verbatim>\<open>str(e)\<close>.  The choices of the user in the widgets are inputs.  The
  exceptions of the model are those that \<^verbatim>\<open>except Exception\<close> catches.
\<close>

record upload =
  file_name :: string
  content :: string

record widgets =
  clean_cols :: bool
  remove_dups :: bool
  missing_method :: string
  x_col :: string
  y_col :: string
  plot_type :: string

record env =
  read_csv :: "upload \<Rightarrow> exn + table"
  read_excel :: "upload \<Rightarrow> exn + table"
  plot :: "string \<Rightarrow> table \<Rightarrow> string \<Rightarrow> string \<Rightarrow> exn + string"
  to_csv :: "table \<Rightarrow> exn + string"
  to_excel :: "table \<Rightarrow> exn + string"
  render :: "ui_event \<Rightarrow> exn option"
  describe :: "exn \<Rightarrow> string"

definition endswith :: "string \<Rightarrow> string \<Rightarrow> bool" where
  "endswith s suffix =
     (length suffix \<le> length s \<and> drop (length s - length suffix) s = suffix)"

definition read_file :: "env \<Rightarrow> upload \<Rightarrow> exn + table" where
  "read_file ev f = (if endswith (file_name f) ''.csv'' then read_csv ev f else read_excel ev f)"

definition missing_methods :: "string list" where
  "missing_methods = [''Remove rows'', ''Fill with mean'', ''Fill with median'', ''Fill with zero'']"

definition plot_types :: "string list" where
  "plot_types = [''Scatter'', ''Line'', ''Bar'', ''Box'', ''Histogram'']"

definition preview_section :: "env \<Rightarrow> table \<Rightarrow> unit ui" where
  "preview_section ev df =
     bind_ui (emit (render ev) (SubHeader ''Data Preview'')) (\<lambda>_.
     emit (render ev) (Dataframe (head df)))"

definition cleaning_section :: "env \<Rightarrow> widgets \<Rightarrow> table \<Rightarrow> table ui" where
  "cleaning_section ev w df0 =
     bind_ui (emit (render ev) (SubHeader ''Data Cleaning Options'')) (\<lambda>_.
     bind_ui (emit (render ev) (Columns 3)) (\<lambda>_.
     bind_ui (emit (render ev) (Checkbox ''Clean column names'')) (\<lambda>_.
     bind_ui (lift (Inr (if clean_cols w then clean_column_names df0 else df0))) (\<lambda>df1.
     bind_ui (emit (render ev) (Checkbox ''Remove duplicate rows'')) (\<lambda>_.
     bind_ui (if remove_dups w then remove_duplicates (render ev) df1 else lift (Inr df1))
       (\<lambda>df2.
     if has_missing df2
     then bind_ui (emit (render ev) (Selectbox ''Handle missing values'' missing_methods))
            (\<lambda>_. lift (handle_missing_values df2 (missing_method w)))
     else lift (Inr df2)))))))"

definition visualization_section :: "env \<Rightarrow> widgets \<Rightarrow> table \<Rightarrow> unit ui" where
  "visualization_section ev w df =
     bind_ui (emit (render ev) (SubHeader ''Data Visualization'')) (\<lambda>_.
     bind_ui (emit (render ev) (Columns 3)) (\<lambda>_.
     if numeric_columns df \<noteq> []
     then bind_ui (emit (render ev) (Selectbox ''X-axis'' (map name df))) (\<lambda>_.
          bind_ui (emit (render ev) (Selectbox ''Y-axis'' (numeric_columns df))) (\<lambda>_.
          bind_ui (emit (render ev) (Selectbox ''Plot type'' plot_types)) (\<lambda>_.
          bind_ui (lift (plot ev (plot_type w) df (x_col w) (y_col w))) (\<lambda>fig.
          emit (render ev) (Chart fig)))))
     else lift (Inr ())))"

definition download_section :: "env \<Rightarrow> table \<Rightarrow> unit ui" where
  "download_section ev df =
     bind_ui (emit (render ev) (SubHeader ''Download Cleaned Data'')) (\<lambda>_.
     bind_ui (emit (render ev) (Columns 2)) (\<lambda>_.
     bind_ui (lift (to_csv ev df)) (\<lambda>csv.
     bind_ui (emit (render ev)
                (Download ''Download as CSV'' csv ''cleaned_data.csv'' ''text/csv'')) (\<lambda>_.
     bind_ui (lift (to_excel ev df)) (\<lambda>excel_data.
     emit (render ev)
       (Download ''Download as Excel'' excel_data ''cleaned_data.xlsx''
          ''application/vnd.ms-excel''))))))"

definition upload_pipeline :: "env \<Rightarrow> widgets \<Rightarrow> upload \<Rightarrow> unit ui" where
  \<comment> \<open>the body of \<^verbatim>\<open>try\<close>: the file is read, then the four sections of the page follow\<close>
  "upload_pipeline ev w f =
     bind_ui (lift (read_file ev f)) (\<lambda>df0.
     bind_ui (preview_section ev df0) (\<lambda>_.
     bind_ui (cleaning_section ev w df0) (\<lambda>df.
     bind_ui (visualization_section ev w df) (\<lambda>_.
     download_section ev df))))"

definition run_upload :: "env \<Rightarrow> widgets \<Rightarrow> upload option \<Rightarrow> ui_event list" where
  \<comment> \<open>one run of the script below the uploader: the elements it puts on the page\<close>
  "run_upload ev w uploaded_file =
     (case uploaded_file of
        None \<Rightarrow> []
      | Some f \<Rightarrow>
          (case upload_pipeline ev w f [] of
             (page, Inl e) \<Rightarrow> page @ [Error (''An error occurred: '' @ describe ev e)]
           | (page, Inr _) \<Rightarrow> page))"

text \<open>
  What a run shows, step by step, when every Streamlit call succeeds; and the place where a
  run is cut when one of them raises.
\<close>

definition is_error :: "ui_event \<Rightarrow> bool" where
  "is_error el = (case el of Error _ \<Rightarrow> True | _ \<Rightarrow> False)"

definition ideal :: "env \<Rightarrow> env" where
  \<comment> \<open>the same collaborators with a Streamlit that never raises\<close>
  "ideal ev = ev\<lparr>render := (\<lambda>_. None)\<rparr>"

fun first_failure :: "(ui_event \<Rightarrow> exn option) \<Rightarrow> ui_event list \<Rightarrow> (nat \<times> exn) option" where
  \<comment> \<open>the position of the first element whose Streamlit call raises, and the exception\<close>
  "first_failure rnd [] = None"
| "first_failure rnd (el # els) =
     (case rnd el of
        Some e \<Rightarrow> Some (0, e)
      | None \<Rightarrow> (case first_failure rnd els of None \<Rightarrow> None | Some (k, e) \<Rightarrow> Some (Suc k, e)))"

definition cut :: "(ui_event \<Rightarrow> exn option) \<Rightarrow> ui_event list \<times> (exn + 'a) \<Rightarrow> ui_event list \<times> (exn + 'a)" where
  \<comment> \<open>a run cut at the first element whose Streamlit call raises\<close>
  "cut rnd run =
     (case first_failure rnd (fst run) of
        None \<Rightarrow> run
      | Some (k, e) \<Rightarrow> (take k (fst run), Inl e))"

definition cut_of :: "(ui_event \<Rightarrow> exn option) \<Rightarrow> 'a ui \<Rightarrow> 'a ui \<Rightarrow> bool" where
  \<comment> \<open>\<open>m\<close> does what \<open>m0\<close> does up to the first element whose Streamlit call raises\<close>
  "cut_of rnd m m0 =
     (\<forall>page. \<exists>added. fst (m0 page) = page @ added \<and>
        (case first_failure rnd added of
           None \<Rightarrow> m page = m0 page
         | Some (k, e) \<Rightarrow> m page = (page @ take k added, Inl e)))"

definition quiet :: "'a ui \<Rightarrow> bool" where
  \<comment> \<open>the computation keeps the page and adds no error message\<close>
  "quiet m =
     (\<forall>page p r. m page = (p, r) \<longrightarrow>
        (\<exists>added. p = page @ added \<and> list_all (\<lambda>el. \<not> is_error el) added))"

definition cleaned :: "widgets \<Rightarrow> table \<Rightarrow> table" where
  "cleaned w df0 = (if clean_cols w then clean_column_names df0 else df0)"

definition deduped :: "widgets \<Rightarrow> table \<Rightarrow> table" where
  "deduped w df0 = (if remove_dups w then drop_duplicates (cleaned w df0) else cleaned w df0)"

definition filled :: "widgets \<Rightarrow> table \<Rightarrow> exn + table" where
  "filled w df0 =
     (if has_missing (deduped w df0)
      then handle_missing_values (deduped w df0) (missing_method w)
      else Inr (deduped w df0))"

definition page_cleaning :: "widgets \<Rightarrow> table \<Rightarrow> ui_event list" where
  \<comment> \<open>the page up to the call of \<^verbatim>\<open>handle_missing_values\<close>\<close>
  "page_cleaning w df0 =
     [SubHeader ''Data Preview'', Dataframe (head df0),
      SubHeader ''Data Cleaning Options'', Columns 3,
      Checkbox ''Clean column names'', Checkbox ''Remove duplicate rows'']
     @ (if remove_dups w
        then [Info (removed_message (cleaned w df0) (drop_duplicates (cleaned w df0)))]
        else [])
     @ (if has_missing (deduped w df0)
        then [Selectbox ''Handle missing values'' missing_methods]
        else [])"

definition page_plot_widgets :: "table \<Rightarrow> ui_event list" where
  \<comment> \<open>the page from the visualization header to the call of the plotting library\<close>
  "page_plot_widgets df3 =
     [SubHeader ''Data Visualization'', Columns 3,
      Selectbox ''X-axis'' (map name df3), Selectbox ''Y-axis'' (numeric_columns df3),
      Selectbox ''Plot type'' plot_types]"

definition page_visualization :: "env \<Rightarrow> widgets \<Rightarrow> table \<Rightarrow> exn + ui_event list" where
  \<comment> \<open>the visualization part of the page, when the plotting library does not raise\<close>
  "page_visualization ev w df3 =
     (if numeric_columns df3 = [] then Inr [SubHeader ''Data Visualization'', Columns 3]
      else (case plot ev (plot_type w) df3 (x_col w) (y_col w) of
              Inl e \<Rightarrow> Inl e
            | Inr fig \<Rightarrow> Inr (page_plot_widgets df3 @ [Chart fig])))"

definition page_download :: "ui_event list" where
  "page_download = [SubHeader ''Download Cleaned Data'', Columns 2]"

definition csv_button :: "string \<Rightarrow> ui_event" where
  "csv_button csv = Download ''Download as CSV'' csv ''cleaned_data.csv'' ''text/csv''"

definition excel_button :: "string \<Rightarrow> ui_event" where
  "excel_button excel_data =
     Download ''Download as Excel'' excel_data ''cleaned_data.xlsx'' ''application/vnd.ms-excel''"


section \<open>Column name cleaning: what the labels become\<close>

lemma is_word_underscore: "is_word (CHR ''_'')"
  by (simp add: is_word_def)

lemma filter_replace_lower_concat:
  "filter (\<lambda>c. is_word c \<or> is_space c)
     (map (\<lambda>c. if c = CHR '' '' then CHR ''_'' else c) (map lower_chr xs))
   = concat (map clean_chr xs)"
  by (induction xs) (auto simp: clean_chr_def Let_def is_word_underscore)

lemma clean_name_per_character: "clean_name s = per_character_name s"
  unfolding clean_name_def per_character_name_def str_remove_special_def
    str_replace_chr_def str_lower_def
  by (rule filter_replace_lower_concat)

lemma nrows_clean_column_names: "nrows (clean_column_names df) = nrows df"
  by (cases df) (simp_all add: nrows_def clean_column_names_def)

lemma row_at_clean_column_names: "row_at (clean_column_names df) i = row_at df i"
  by (simp add: row_at_def clean_column_names_def comp_def)

text \<open>
  C1 (as amended).  \<^verbatim>\<open>clean_column_names\<close> keeps the number of rows and of columns, every
  cell and every dtype, and replaces each label by: the label trimmed of leading and trailing
  whitespace, in lower case, with every single space character replaced by one underscore
  (a run of \<open>k\<close> spaces gives \<open>k\<close> underscores; tabs and other whitespace are not replaced),
  and with every character that is not alphanumeric, underscore or whitespace removed.
\<close>

theorem clean_column_names_transform:
  "ncols (clean_column_names df) = ncols df
   \<and> nrows (clean_column_names df) = nrows df
   \<and> map cells (clean_column_names df) = map cells df
   \<and> map dtype (clean_column_names df) = map dtype df
   \<and> rows (clean_column_names df) = rows df
   \<and> map name (clean_column_names df) = map (\<lambda>c. per_character_name (name c)) df"
proof -
  have "rows (clean_column_names df) = rows df"
    by (simp add: rows_def nrows_clean_column_names row_at_clean_column_names)
  moreover have "map name (clean_column_names df) = map (\<lambda>c. per_character_name (name c)) df"
    by (simp add: clean_column_names_def comp_def clean_name_per_character)
  moreover have "map cells (clean_column_names df) = map cells df"
    and "map dtype (clean_column_names df) = map dtype df"
    by (simp_all add: clean_column_names_def comp_def)
  moreover have "ncols (clean_column_names df) = ncols df"
    by (simp add: ncols_def clean_column_names_def)
  ultimately show ?thesis
    by (simp add: nrows_clean_column_names)
qed

text \<open>
  C1, an instance: two labels, one with a run of two spaces, and the rows of the table.
\<close>

theorem clean_column_names_transform_witness:
  "map name (clean_column_names
      [\<lparr>name = '' Total Sales! '', dtype = Number, cells = [Num 1, Missing]\<rparr>,
       \<lparr>name = ''Region  Code'', dtype = Object, cells = [Text ''n'', Text ''s'']\<rparr>])
     = [''total_sales'', ''region__code'']
   \<and> rows (clean_column_names
      [\<lparr>name = '' Total Sales! '', dtype = Number, cells = [Num 1, Missing]\<rparr>,
       \<lparr>name = ''Region  Code'', dtype = Object, cells = [Text ''n'', Text ''s'']\<rparr>])
     = [[Num 1, Text ''n''], [Missing, Text ''s'']]"
proof -
  let ?df = "[\<lparr>name = '' Total Sales! '', dtype = Number, cells = [Num 1, Missing]\<rparr>,
       \<lparr>name = ''Region  Code'', dtype = Object, cells = [Text ''n'', Text ''s'']\<rparr>]"
  have n: "map (\<lambda>c. per_character_name (name c)) ?df = [''total_sales'', ''region__code'']"
    by code_simp
  have r: "rows ?df = [[Num 1, Text ''n''], [Missing, Text ''s'']]"
    by code_simp
  from clean_column_names_transform[of ?df] n r show ?thesis
    by presburger
qed

text \<open>
  C1 (as stated) fails: the claim replaces a run of whitespace by one underscore, the code
  replaces each space.  The label \<open>a  b\<close> (two spaces) becomes \<open>a__b\<close>, where the transform
  of the claim gives \<open>a_b\<close>.
\<close>

theorem clean_column_names_runs_counterexample:
  "map name (clean_column_names [\<lparr>name = ''a  b'', dtype = Number, cells = [Num 1]\<rparr>]) = [''a__b'']
   \<and> map spec_normalize_name [''a  b''] = [''a_b'']
   \<and> ''a__b'' \<noteq> ''a_b''"
  by code_simp

lemma of_char_lower_chr:
  "(of_char (lower_chr c) :: nat) =
     (let n = of_char c in
      if (65 \<le> n \<and> n \<le> 90) \<or> (192 \<le> n \<and> n \<le> 214) \<or> (216 \<le> n \<and> n \<le> 222)
      then n + 32 else n)"
  by (auto simp: lower_chr_def Let_def of_char_of)

lemma lower_chr_idem: "lower_chr (lower_chr c) = lower_chr c"
proof -
  have "(of_char (lower_chr (lower_chr c)) :: nat) = of_char (lower_chr c)"
    by (simp add: of_char_lower_chr Let_def)
  then show ?thesis
    by (metis char_of_char)
qed

lemma lower_chr_fixed_iff:
  "lower_chr c = c \<longleftrightarrow>
     \<not> (let n = (of_char c :: nat) in
        (65 \<le> n \<and> n \<le> 90) \<or> (192 \<le> n \<and> n \<le> 214) \<or> (216 \<le> n \<and> n \<le> 222))"
proof -
  have "lower_chr c = c \<longleftrightarrow> (of_char (lower_chr c) :: nat) = of_char c"
    by (metis char_of_char)
  then show ?thesis
    by (auto simp: of_char_lower_chr Let_def)
qed

lemma set_clean_name:
  assumes "ch \<in> set (clean_name s)"
  shows "(is_word ch \<or> is_space ch) \<and> ch \<noteq> CHR '' '' \<and> lower_chr ch = ch
         \<and> (\<exists>c \<in> set s. ch = lower_chr c \<or> (lower_chr c = CHR '' '' \<and> ch = CHR ''_''))"
proof -
  have sub: "set (str_strip s) \<subseteq> set s"
  proof
    fix x assume "x \<in> set (str_strip s)"
    then have "x \<in> set (dropWhile is_space (rev (dropWhile is_space s)))"
      by (simp add: str_strip_def)
    then have "x \<in> set (rev (dropWhile is_space s))"
      by (rule set_dropWhileD)
    then have "x \<in> set (dropWhile is_space s)"
      by simp
    then show "x \<in> set s"
      by (rule set_dropWhileD)
  qed
  have u: "lower_chr (CHR ''_'') = CHR ''_''"
    by (simp add: lower_chr_def)
  from assms obtain c where c: "c \<in> set (str_strip s)"
    and ch: "ch = (if lower_chr c = CHR '' '' then CHR ''_'' else lower_chr c)"
    and w: "is_word ch \<or> is_space ch"
    by (auto simp: clean_name_def str_remove_special_def str_replace_chr_def str_lower_def)
  from ch have "ch \<noteq> CHR '' ''" by (auto split: if_splits)
  moreover from ch have "lower_chr ch = ch" by (auto simp: u lower_chr_idem split: if_splits)
  moreover from c sub ch have "\<exists>c \<in> set s. ch = lower_chr c \<or> (lower_chr c = CHR '' '' \<and> ch = CHR ''_'')"
    by (auto split: if_splits)
  ultimately show ?thesis using w by blast
qed

lemma clean_name_charset:
  assumes "ch \<in> set (clean_name s)"
  shows "is_lower_digit_underscore ch \<or> (is_space ch \<and> ch \<noteq> CHR '' '') \<or> (\<not> is_ascii ch \<and> is_word ch)"
proof -
  from set_clean_name[OF assms]
  have w: "is_word ch \<or> is_space ch" and ns: "ch \<noteq> CHR '' ''" and l: "lower_chr ch = ch"
    by blast+
  from l have nu: "\<not> (65 \<le> (of_char ch :: nat) \<and> (of_char ch :: nat) \<le> 90)"
    by (simp add: lower_chr_fixed_iff Let_def)
  show ?thesis
  proof (cases "is_space ch")
    case True
    with ns show ?thesis by simp
  next
    case False
    with w have "is_word ch" by simp
    with nu show ?thesis
      by (auto simp: is_word_def is_lower_digit_underscore_def is_ascii_def Let_def)
  qed
qed

lemma is_ascii_lower_chr: "is_ascii (lower_chr c) \<longleftrightarrow> is_ascii c"
  by (auto simp: is_ascii_def of_char_lower_chr Let_def)

lemma is_space_lower_chr: "is_space (lower_chr c) \<longleftrightarrow> is_space c"
  by (auto simp: is_space_def of_char_lower_chr Let_def)

lemma lower_chr_eq_space: "lower_chr c = CHR '' '' \<longleftrightarrow> c = CHR '' ''"
proof -
  have "lower_chr c = CHR '' '' \<longleftrightarrow> (of_char (lower_chr c) :: nat) = of_char (CHR '' '')"
    by (metis char_of_char)
  also have "\<dots> \<longleftrightarrow> (of_char c :: nat) = of_char (CHR '' '')"
    by (auto simp: of_char_lower_chr Let_def)
  also have "\<dots> \<longleftrightarrow> c = CHR '' ''"
    by (metis char_of_char)
  finally show ?thesis .
qed

lemma clean_name_plain:
  assumes "\<forall>c \<in> set s. is_ascii c \<and> (is_space c \<longrightarrow> c = CHR '' '')"
  shows "list_all is_lower_digit_underscore (clean_name s)"
proof -
  have "is_lower_digit_underscore ch" if "ch \<in> set (clean_name s)" for ch
  proof -
    from set_clean_name[OF that] obtain c where c: "c \<in> set s"
      and ns: "ch \<noteq> CHR '' ''"
      and ch: "ch = lower_chr c \<or> (lower_chr c = CHR '' '' \<and> ch = CHR ''_'')"
      by blast
    from ch show ?thesis
    proof
      assume e: "ch = lower_chr c"
      with c assms ns have "is_ascii ch" "\<not> is_space ch"
        by (auto simp: is_ascii_lower_chr is_space_lower_chr lower_chr_eq_space)
      with clean_name_charset[OF that] show ?thesis by blast
    next
      assume "lower_chr c = CHR '' '' \<and> ch = CHR ''_''"
      then show ?thesis by (simp add: is_lower_digit_underscore_def)
    qed
  qed
  then show ?thesis by (simp add: list_all_iff)
qed

text \<open>
  C6 (as amended).  Every character of every label that \<^verbatim>\<open>clean_column_names\<close> returns is
  in \<^verbatim>\<open>[a-z0-9_]\<close>, or is a whitespace character other than the space, or is a word
  character outside ASCII; and when the labels of the input are ASCII and contain no
  whitespace other than spaces, every label of the output matches \<^verbatim>\<open>[a-z0-9_]*\<close>.
\<close>

theorem clean_column_names_charset:
  "(\<forall>c \<in> set (clean_column_names df). \<forall>ch \<in> set (name c).
       is_lower_digit_underscore ch \<or> (is_space ch \<and> ch \<noteq> CHR '' '') \<or> (\<not> is_ascii ch \<and> is_word ch))
   \<and> ((\<forall>c \<in> set df. \<forall>ch \<in> set (name c). is_ascii ch \<and> (is_space ch \<longrightarrow> ch = CHR '' ''))
        \<longrightarrow> (\<forall>c \<in> set (clean_column_names df). list_all is_lower_digit_underscore (name c)))"
  by (auto simp: clean_column_names_def clean_name_plain dest: clean_name_charset)

text \<open>
  C6, an instance: the label \<open> Total Sales! \<close> is ASCII with spaces only, and becomes
  \<open>total_sales\<close>.
\<close>

theorem clean_column_names_charset_witness:
  "list_all is_lower_digit_underscore
     (name (hd (clean_column_names [\<lparr>name = '' Total Sales! '', dtype = Number, cells = [Num 1]\<rparr>])))
   \<and> map name (clean_column_names [\<lparr>name = '' Total Sales! '', dtype = Number, cells = [Num 1]\<rparr>])
       = [''total_sales'']"
proof -
  have h: "\<forall>c \<in> set [\<lparr>name = '' Total Sales! '', dtype = Number, cells = [Num 1]\<rparr>].
             \<forall>ch \<in> set (name c). is_ascii ch \<and> (is_space ch \<longrightarrow> ch = CHR '' '')"
    by (simp add: is_ascii_def is_space_def)
  have e: "map name (clean_column_names [\<lparr>name = '' Total Sales! '', dtype = Number, cells = [Num 1]\<rparr>])
       = [''total_sales'']"
    by code_simp
  from h clean_column_names_charset[of "[\<lparr>name = '' Total Sales! '', dtype = Number, cells = [Num 1]\<rparr>]"]
  have "\<forall>c \<in> set (clean_column_names [\<lparr>name = '' Total Sales! '', dtype = Number, cells = [Num 1]\<rparr>]).
          list_all is_lower_digit_underscore (name c)"
    by blast
  then have "list_all is_lower_digit_underscore
     (name (hd (clean_column_names [\<lparr>name = '' Total Sales! '', dtype = Number, cells = [Num 1]\<rparr>])))"
    by (simp add: clean_column_names_def)
  with e show ?thesis by blast
qed

text \<open>
  C6 (as stated) fails: a tab inside a label is kept, so the label \<open>a<TAB>b\<close> is returned
  as it is and does not match \<^verbatim>\<open>[a-z0-9_]*\<close>.
\<close>

theorem clean_column_names_tab_counterexample:
  "map name (clean_column_names [\<lparr>name = [CHR ''a'', CHR 0x09, CHR ''b''], dtype = Number, cells = [Num 1]\<rparr>])
     = [[CHR ''a'', CHR 0x09, CHR ''b'']]
   \<and> \<not> list_all is_lower_digit_underscore [CHR ''a'', CHR 0x09, CHR ''b'']"
  by code_simp


lemma str_strip_fixed:
  assumes "\<not> edge_whitespace s"
  shows "str_strip s = s"
proof (cases s rule: rev_cases)
  case Nil
  then show ?thesis by (simp add: str_strip_def)
next
  case (snoc ys y)
  with assms have h: "\<not> is_space (hd s)" and l: "\<not> is_space y"
    by (auto simp: edge_whitespace_def)
  from h have "dropWhile is_space s = s"
    by (cases s) auto
  with snoc l show ?thesis
    by (simp add: str_strip_def)
qed

lemma length_str_strip_le: "length (str_strip s) \<le> length s"
proof -
  have "length (str_strip s) \<le> length (rev (dropWhile is_space s))"
    using length_dropWhile_le[of is_space "rev (dropWhile is_space s)"]
    by (simp add: str_strip_def)
  also have "\<dots> \<le> length s"
    unfolding length_rev by (rule length_dropWhile_le)
  finally show ?thesis .
qed

lemma length_str_strip_less:
  assumes "edge_whitespace s"
  shows "length (str_strip s) < length s"
proof -
  from assms have ne: "s \<noteq> []" and e: "is_space (hd s) \<or> is_space (last s)"
    by (auto simp: edge_whitespace_def)
  let ?d = "dropWhile is_space s"
  have outer: "length (str_strip s) \<le> length ?d"
    unfolding str_strip_def length_rev using length_dropWhile_le[of is_space "rev ?d"] by simp
  from e show ?thesis
  proof
    assume "is_space (hd s)"
    with ne obtain x xs where s: "s = x # xs" and x: "is_space x"
      by (cases s) auto
    then have "length ?d \<le> length xs"
      by (simp add: length_dropWhile_le)
    with outer s show ?thesis by simp
  next
    assume sp: "is_space (last s)"
    show ?thesis
    proof (cases "?d = []")
      case True
      from ne show ?thesis
        unfolding str_strip_def True by simp
    next
      case False
      have "s = takeWhile is_space s @ ?d" by simp
      with False have "last ?d = last s"
        by (metis last_appendR)
      with sp False obtain ys y where d: "?d = ys @ [y]" and y: "is_space y"
        by (metis snoc_eq_iff_butlast)
      have "length (dropWhile is_space (rev ?d)) \<le> length ys"
        using y length_dropWhile_le[of is_space "rev ys"] by (simp add: d)
      then have "length (str_strip s) < length ?d"
        by (simp add: str_strip_def d)
      with length_dropWhile_le[of is_space s] show ?thesis by simp
    qed
  qed
qed

lemma length_clean_name_le: "length (clean_name s) \<le> length (str_strip s)"
proof -
  have "length (clean_name s)
        \<le> length (str_replace_chr (CHR '' '') (CHR ''_'') (str_lower (str_strip s)))"
    unfolding clean_name_def str_remove_special_def by (rule length_filter_le)
  then show ?thesis
    by (simp add: str_replace_chr_def str_lower_def)
qed

lemma clean_name_fixed:
  assumes e: "\<not> edge_whitespace s"
    and c: "\<forall>ch \<in> set s. (is_word ch \<or> is_space ch) \<and> ch \<noteq> CHR '' '' \<and> lower_chr ch = ch"
  shows "clean_name s = s"
proof -
  from c have "map lower_chr s = s"
    by (simp add: map_idI)
  moreover from c have "map (\<lambda>ch. if ch = CHR '' '' then CHR ''_'' else ch) s = s"
    by (simp add: map_idI)
  moreover from c have "filter (\<lambda>ch. is_word ch \<or> is_space ch) s = s"
    by (simp add: filter_id_conv)
  ultimately show ?thesis
    by (simp add: clean_name_def str_strip_fixed[OF e] str_lower_def str_replace_chr_def
        str_remove_special_def)
qed

lemma update_name_eq_iff:
  "(a\<lparr>name := x\<rparr> = a\<lparr>name := y\<rparr>) \<longleftrightarrow> x = y"
  by (cases a) simp

lemma clean_name_idem_iff:
  "clean_name (clean_name s) = clean_name s \<longleftrightarrow> \<not> edge_whitespace (clean_name s)"
proof
  assume eq: "clean_name (clean_name s) = clean_name s"
  show "\<not> edge_whitespace (clean_name s)"
  proof
    assume "edge_whitespace (clean_name s)"
    then have "length (str_strip (clean_name s)) < length (clean_name s)"
      by (rule length_str_strip_less)
    with length_clean_name_le[of "clean_name s"] eq show False by simp
  qed
next
  assume "\<not> edge_whitespace (clean_name s)"
  then show "clean_name (clean_name s) = clean_name s"
    by (rule clean_name_fixed) (use set_clean_name in blast)
qed

lemma clean_name_no_edge:
  assumes "\<forall>c \<in> set s. is_space c \<longrightarrow> c = CHR '' ''"
  shows "\<not> edge_whitespace (clean_name s)"
proof -
  have "\<not> is_space ch" if "ch \<in> set (clean_name s)" for ch
  proof -
    from set_clean_name[OF that] obtain c where c: "c \<in> set s"
      and ns: "ch \<noteq> CHR '' ''"
      and ch: "ch = lower_chr c \<or> (lower_chr c = CHR '' '' \<and> ch = CHR ''_'')"
      by blast
    from ch show ?thesis
    proof
      assume "ch = lower_chr c"
      with c assms ns show ?thesis
        by (auto simp: is_space_lower_chr lower_chr_eq_space)
    next
      assume "lower_chr c = CHR '' '' \<and> ch = CHR ''_''"
      then show ?thesis by (simp add: is_space_def)
    qed
  qed
  then show ?thesis
    by (auto simp: edge_whitespace_def)
qed

text \<open>
  C7 (as amended).  Cleaning the labels a second time changes nothing exactly when no label
  of the cleaned table begins or ends with a whitespace character; this is the case whenever
  the labels of the input contain no whitespace other than spaces.
\<close>

theorem clean_column_names_idempotent_iff:
  "(clean_column_names (clean_column_names df) = clean_column_names df
      \<longleftrightarrow> (\<forall>c \<in> set (clean_column_names df). \<not> edge_whitespace (name c)))
   \<and> ((\<forall>c \<in> set df. \<forall>ch \<in> set (name c). is_space ch \<longrightarrow> ch = CHR '' '')
        \<longrightarrow> clean_column_names (clean_column_names df) = clean_column_names df)"
proof -
  have a: "clean_column_names (clean_column_names df) = clean_column_names df
      \<longleftrightarrow> (\<forall>c \<in> set (clean_column_names df). \<not> edge_whitespace (name c))"
  proof -
    have "clean_column_names (clean_column_names df) = clean_column_names df
          \<longleftrightarrow> (\<forall>c \<in> set df. clean_name (clean_name (name c)) = clean_name (name c))"
      by (induction df) (auto simp: clean_column_names_def update_name_eq_iff)
    then show ?thesis
      by (simp add: clean_name_idem_iff clean_column_names_def)
  qed
  have b: "\<forall>c \<in> set (clean_column_names df). \<not> edge_whitespace (name c)"
    if "\<forall>c \<in> set df. \<forall>ch \<in> set (name c). is_space ch \<longrightarrow> ch = CHR '' ''"
    using that by (auto simp: clean_column_names_def dest: clean_name_no_edge[rotated])
  from a b show ?thesis by blast
qed

text \<open>
  C7, an instance: a label with spaces only is cleaned once and for all.
\<close>

theorem clean_column_names_idempotent_witness:
  "clean_column_names (clean_column_names
         [\<lparr>name = '' Total Sales! '', dtype = Number, cells = [Num 1]\<rparr>])
       = clean_column_names [\<lparr>name = '' Total Sales! '', dtype = Number, cells = [Num 1]\<rparr>]
   \<and> clean_column_names [\<lparr>name = '' Total Sales! '', dtype = Number, cells = [Num 1]\<rparr>]
       = [\<lparr>name = ''total_sales'', dtype = Number, cells = [Num 1]\<rparr>]"
proof -
  let ?df = "[\<lparr>name = '' Total Sales! '', dtype = Number, cells = [Num 1]\<rparr>]"
  have h: "\<forall>c \<in> set ?df. \<forall>ch \<in> set (name c). is_space ch \<longrightarrow> ch = CHR '' ''"
    by (simp add: is_space_def)
  have v: "clean_column_names ?df = [\<lparr>name = ''total_sales'', dtype = Number, cells = [Num 1]\<rparr>]"
    by code_simp
  from clean_column_names_idempotent_iff[of ?df] h
  have "clean_column_names (clean_column_names ?df) = clean_column_names ?df"
    by blast
  with v show ?thesis by blast
qed

text \<open>
  C7 (as stated) fails: the label \<open>a<TAB>!\<close> becomes \<open>a<TAB>\<close> (the tab is inside the label
  when it is trimmed, and the mark after it is removed later); the second pass trims the tab
  and gives \<open>a\<close>.
\<close>

theorem clean_column_names_idempotent_counterexample:
  "map name (clean_column_names [\<lparr>name = [CHR ''a'', CHR 0x09, CHR ''!''], dtype = Number, cells = [Num 1]\<rparr>])
     = [[CHR ''a'', CHR 0x09]]
   \<and> map name (clean_column_names (clean_column_names
        [\<lparr>name = [CHR ''a'', CHR 0x09, CHR ''!''], dtype = Number, cells = [Num 1]\<rparr>]))
     = [''a'']"
  by code_simp


section \<open>Row selection and duplicate rows\<close>


lemma length_take_rows: "length (take_rows idx df) = length df"
  by (simp add: take_rows_def)

lemma names_take_rows: "map name (take_rows idx df) = map name df"
  by (simp add: take_rows_def comp_def)

lemma dtypes_take_rows: "map dtype (take_rows idx df) = map dtype df"
  by (simp add: take_rows_def comp_def)

lemma nrows_take_rows: "df \<noteq> [] \<Longrightarrow> nrows (take_rows idx df) = length idx"
  by (cases df) (simp_all add: nrows_def take_rows_def)

lemma row_at_take_rows:
  "k < length idx \<Longrightarrow> row_at (take_rows idx df) k = row_at df (idx ! k)"
  by (simp add: row_at_def take_rows_def comp_def)

lemma rows_take_rows:
  assumes "df \<noteq> []"
  shows "rows (take_rows idx df) = map (row_at df) idx"
proof -
  have "rows (take_rows idx df) = map (\<lambda>k. row_at df (idx ! k)) [0..<length idx]"
    by (simp add: rows_def nrows_take_rows[OF assms] row_at_take_rows)
  also have "\<dots> = map (row_at df) (map (\<lambda>k. idx ! k) [0..<length idx])"
    by (simp add: comp_def)
  also have "\<dots> = map (row_at df) idx"
    by (simp add: map_nth)
  finally show ?thesis .
qed

lemma rows_Nil: "rows [] = []"
  by (simp add: rows_def nrows_def)

lemma length_rows: "length (rows df) = nrows df"
  by (simp add: rows_def)

lemma rectangular_take_rows: "rectangular (take_rows idx df)"
proof (cases df)
  case Nil
  then show ?thesis by (simp add: rectangular_def take_rows_def)
next
  case (Cons c cs)
  then have "nrows (take_rows idx df) = length idx"
    by (simp add: nrows_take_rows)
  then show ?thesis
    by (simp add: rectangular_def list_all_iff take_rows_def)
qed

lemma nonzero_map: "nonzero (map f xs) = filter (\<lambda>i. f (xs ! i)) [0..<length xs]"
  unfolding nonzero_def by (rule filter_cong) auto

lemma nonzero_rows:
  "nonzero (map f (rows df)) = filter (\<lambda>i. f (row_at df i)) [0..<nrows df]"
  unfolding nonzero_map length_rows by (rule filter_cong) (auto simp: rows_def)












lemma cell_key_eq_iff:
  "cell_key x = cell_key y \<longleftrightarrow>
     x = y \<or> (\<exists>b. (x = Bool b \<and> y = Num (if b then 1 else 0)) \<or> (y = Bool b \<and> x = Num (if b then 1 else 0)))"
  by (cases x; cases y) (auto simp: cell_key_def)





section \<open>Missing values: removing rows and filling with zero\<close>

lemma rows_dropna:
  "rows (dropna df) = filter (\<lambda>r. Missing \<notin> set r) (rows df)"
proof (cases df)
  case Nil
  then show ?thesis
    by (simp add: dropna_def take_rows_def rows_Nil)
next
  case (Cons c cs)
  then have ne: "df \<noteq> []" by simp
  have p: "(\<not> list_ex isna r) = (Missing \<notin> set r)" for r
    by (auto simp: list_ex_iff isna_def)
  have "rows (dropna df) = map (row_at df) (filter (\<lambda>i. Missing \<notin> set (row_at df i)) [0..<nrows df])"
    by (simp add: dropna_def rows_take_rows[OF ne] nonzero_rows p)
  also have "\<dots> = filter (\<lambda>r. Missing \<notin> set r) (rows df)"
    by (simp add: rows_def filter_map comp_def)
  finally show ?thesis .
qed

lemma no_missing_dropna: "\<not> has_missing (dropna df)"
proof
  assume "has_missing (dropna df)"
  then obtain c i where c: "c \<in> set df"
    and i: "i \<in> set (nonzero (map (\<lambda>r. \<not> list_ex isna r) (rows df)))"
    and m: "cells c ! i = Missing"
    by (auto simp: has_missing_def dropna_def take_rows_def list_ex_iff isna_def)
  from i have "Missing \<notin> set (row_at df i)"
    by (auto simp: nonzero_rows list_ex_iff isna_def)
  with c m show False
    by (force simp: row_at_def)
qed

text \<open>
  C4.  With the method \<open>Remove rows\<close>, \<^verbatim>\<open>handle_missing_values\<close> returns the table whose
  rows are exactly the rows of the input without a missing cell, whatever the dtype of the
  column of the cell, in their order: the result has no missing cell, every row of it is a
  row of the input, the columns (their number, labels and dtypes) are those of the input,
  and it has at most as many rows.
\<close>

theorem remove_rows_drops_incomplete_rows:
  assumes "rectangular df"
  shows "\<exists>df'. handle_missing_values df ''Remove rows'' = Inr df'
          \<and> rows df' = filter (\<lambda>r. Missing \<notin> set r) (rows df)
          \<and> \<not> has_missing df'
          \<and> set (rows df') \<subseteq> set (rows df)
          \<and> ncols df' = ncols df
          \<and> nrows df' \<le> nrows df
          \<and> map name df' = map name df
          \<and> map dtype df' = map dtype df
          \<and> rectangular df'"
proof -
  let ?d = "dropna df"
  have "handle_missing_values df ''Remove rows'' = Inr ?d"
    by (simp add: handle_missing_values_def)
  moreover have r: "rows ?d = filter (\<lambda>r. Missing \<notin> set r) (rows df)"
    by (rule rows_dropna)
  moreover have "\<not> has_missing ?d"
    by (rule no_missing_dropna)
  moreover from r have "set (rows ?d) \<subseteq> set (rows df)"
    by auto
  moreover have "ncols ?d = ncols df"
    by (simp add: ncols_def dropna_def length_take_rows)
  moreover have "nrows ?d \<le> nrows df"
  proof -
    have "length (rows ?d) \<le> length (rows df)"
      unfolding r by (rule length_filter_le)
    then show ?thesis by (simp add: length_rows)
  qed
  moreover have "map name ?d = map name df" "map dtype ?d = map dtype df"
    by (simp_all add: dropna_def names_take_rows dtypes_take_rows)
  moreover have "rectangular ?d"
    by (simp add: dropna_def rectangular_take_rows)
  ultimately show ?thesis by blast
qed

text \<open>
  C4, an instance: a missing number and a missing text each remove their row.
\<close>

theorem remove_rows_drops_incomplete_rows_witness:
  "rectangular [\<lparr>name = ''x'', dtype = Number, cells = [Num 1, Missing, Num 3]\<rparr>,
                \<lparr>name = ''y'', dtype = Object, cells = [Missing, Text ''b'', Text ''c'']\<rparr>]
   \<and> handle_missing_values
        [\<lparr>name = ''x'', dtype = Number, cells = [Num 1, Missing, Num 3]\<rparr>,
         \<lparr>name = ''y'', dtype = Object, cells = [Missing, Text ''b'', Text ''c'']\<rparr>] ''Remove rows''
      = Inr [\<lparr>name = ''x'', dtype = Number, cells = [Num 3]\<rparr>,
             \<lparr>name = ''y'', dtype = Object, cells = [Text ''c'']\<rparr>]
   \<and> \<not> has_missing [\<lparr>name = ''x'', dtype = Number, cells = [Num 3]\<rparr>,
             \<lparr>name = ''y'', dtype = Object, cells = [Text ''c'']\<rparr>]"
proof -
  let ?df = "[\<lparr>name = ''x'', dtype = Number, cells = [Num 1, Missing, Num 3]\<rparr>,
              \<lparr>name = ''y'', dtype = Object, cells = [Missing, Text ''b'', Text ''c'']\<rparr>]"
  let ?out = "[\<lparr>name = ''x'', dtype = Number, cells = [Num 3]\<rparr>,
               \<lparr>name = ''y'', dtype = Object, cells = [Text ''c'']\<rparr>]"
  have r: "rectangular ?df"
    by code_simp
  have v: "handle_missing_values ?df ''Remove rows'' = Inr ?out"
    by code_simp
  from remove_rows_drops_incomplete_rows[OF r] obtain df' where
    "handle_missing_values ?df ''Remove rows'' = Inr df'" and n: "\<not> has_missing df'"
    by blast
  with v have "df' = ?out" by simp
  with n r v show ?thesis by blast
qed

lemma no_missing_fillna_frame: "v \<noteq> Missing \<Longrightarrow> \<not> has_missing (fillna_frame v df)"
  by (auto simp: has_missing_def fillna_frame_def fillna_def list_ex_iff isna_def)

lemma nrows_fillna_frame: "nrows (fillna_frame v df) = nrows df"
  by (cases df) (simp_all add: nrows_def fillna_frame_def fillna_def)

text \<open>
  C5.  With the method \<open>Fill with zero\<close>, \<^verbatim>\<open>handle_missing_values\<close> replaces every
  missing cell of every column, whatever its dtype, by the number 0 and leaves every other
  cell as it is: the result has no missing cell and the same number of rows and columns.
\<close>

theorem fill_zero_fills_every_column:
  "\<exists>df'. handle_missing_values df ''Fill with zero'' = Inr df'
     \<and> \<not> has_missing df'
     \<and> ncols df' = ncols df
     \<and> nrows df' = nrows df
     \<and> map name df' = map name df
     \<and> map dtype df' = map dtype df
     \<and> map cells df' = map (\<lambda>c. map (\<lambda>x. if x = Missing then Num 0 else x) (cells c)) df"
proof -
  let ?d = "fillna_frame (Num 0) df"
  have "handle_missing_values df ''Fill with zero'' = Inr ?d"
    by (simp add: handle_missing_values_def)
  moreover have "\<not> has_missing ?d"
    by (rule no_missing_fillna_frame) simp
  moreover have "ncols ?d = ncols df"
    by (simp add: ncols_def fillna_frame_def)
  moreover have "nrows ?d = nrows df"
    by (rule nrows_fillna_frame)
  moreover have "map name ?d = map name df" "map dtype ?d = map dtype df"
    by (simp_all add: fillna_frame_def comp_def)
  moreover have "map cells ?d = map (\<lambda>c. map (\<lambda>x. if x = Missing then Num 0 else x) (cells c)) df"
    by (simp add: fillna_frame_def fillna_def isna_def comp_def)
  ultimately show ?thesis by blast
qed

text \<open>
  C5, an instance: the missing text of an \<^verbatim>\<open>object\<close> column becomes the number 0 too.
\<close>

theorem fill_zero_fills_every_column_witness:
  "handle_missing_values
        [\<lparr>name = ''x'', dtype = Number, cells = [Num 1, Missing, Num 3]\<rparr>,
         \<lparr>name = ''y'', dtype = Object, cells = [Missing, Text ''b'', Text ''c'']\<rparr>] ''Fill with zero''
      = Inr [\<lparr>name = ''x'', dtype = Number, cells = [Num 1, Num 0, Num 3]\<rparr>,
             \<lparr>name = ''y'', dtype = Object, cells = [Num 0, Text ''b'', Text ''c'']\<rparr>]
   \<and> \<not> has_missing [\<lparr>name = ''x'', dtype = Number, cells = [Num 1, Num 0, Num 3]\<rparr>,
             \<lparr>name = ''y'', dtype = Object, cells = [Num 0, Text ''b'', Text ''c'']\<rparr>]"
proof -
  let ?df = "[\<lparr>name = ''x'', dtype = Number, cells = [Num 1, Missing, Num 3]\<rparr>,
              \<lparr>name = ''y'', dtype = Object, cells = [Missing, Text ''b'', Text ''c'']\<rparr>]"
  let ?out = "[\<lparr>name = ''x'', dtype = Number, cells = [Num 1, Num 0, Num 3]\<rparr>,
             \<lparr>name = ''y'', dtype = Object, cells = [Num 0, Text ''b'', Text ''c'']\<rparr>]"
  have v: "handle_missing_values ?df ''Fill with zero'' = Inr ?out"
    by code_simp
  from fill_zero_fills_every_column[of ?df] obtain df' where
    "handle_missing_values ?df ''Fill with zero'' = Inr df'" and n: "\<not> has_missing df'"
    by blast
  with v have "df' = ?out" by simp
  with n v show ?thesis by blast
qed


section \<open>Rounding to \<^verbatim>\<open>float64\<close>\<close>

lemma pow2_powi: "pow2 e = 2 powi e"
  by (simp add: pow2_def power_int_def power_inverse inverse_eq_divide power_one_over)

lemma pow2_pos: "0 < pow2 e"
  by (simp add: pow2_powi)

lemma pow2_add: "pow2 (m + n) = pow2 m * pow2 n"
  by (simp add: pow2_powi power_int_add)

lemma pow2_mono: "m \<le> n \<Longrightarrow> pow2 m \<le> pow2 n"
  by (simp add: pow2_powi power_int_increasing)

lemma pow2_strict_mono: "m < n \<Longrightarrow> pow2 m < pow2 n"
  by (simp add: pow2_powi power_int_strict_increasing)

lemma pow2_le_imp_le: "pow2 m \<le> pow2 n \<Longrightarrow> m \<le> n"
  using pow2_strict_mono[of n m] by (cases "m \<le> n") auto

lemma pow2_less_imp_less: "pow2 m < pow2 n \<Longrightarrow> m < n"
  using pow2_mono[of n m] by (cases "m < n") auto

lemma pow2_nat: "0 \<le> e \<Longrightarrow> pow2 e = of_int (2 ^ nat e)"
  by (simp add: pow2_def)

lemma log2_ge1_bounds:
  "1 \<le> q \<Longrightarrow> 0 \<le> log2_ge1 q \<and> pow2 (log2_ge1 q) \<le> q \<and> q < pow2 (log2_ge1 q + 1)"
proof (induction q rule: log2_ge1.induct)
  case (1 q)
  show ?case
  proof (cases "q < 2")
    case True
    with "1.prems" show ?thesis
      by (simp add: log2_ge1.simps pow2_def)
  next
    case False
    then have "1 \<le> q / 2" by simp
    from "1.IH"[OF False this]
    have k: "0 \<le> log2_ge1 (q / 2)" "pow2 (log2_ge1 (q / 2)) \<le> q / 2"
      "q / 2 < pow2 (log2_ge1 (q / 2) + 1)"
      by simp_all
    have e: "log2_ge1 q = log2_ge1 (q / 2) + 1"
      using False by (simp add: log2_ge1.simps)
    have two: "pow2 (n + 1) = 2 * pow2 n" for n
      by (simp add: pow2_powi power_int_add_1')
    have "pow2 (log2_ge1 (q / 2) + 1 + 1) = 2 * (2 * pow2 (log2_ge1 (q / 2)))"
      by (simp only: two)
    with k two[of "log2_ge1 (q / 2)"]
    have "0 \<le> log2_ge1 (q / 2) + 1" "pow2 (log2_ge1 (q / 2) + 1) \<le> q"
      "q < pow2 (log2_ge1 (q / 2) + 1 + 1)"
      by linarith+
    then show ?thesis
      unfolding e by blast
  qed
qed

lemma ilog2_bounds:
  assumes "0 < q"
  shows "pow2 (ilog2 q) \<le> q \<and> q < pow2 (ilog2 q + 1)"
proof (cases "1 \<le> q")
  case True
  then show ?thesis
    using log2_ge1_bounds[of q] by (simp add: ilog2_def)
next
  case False
  with assms have x: "1 \<le> 1 / q" by simp
  let ?k = "log2_ge1 (1 / q)"
  from log2_ge1_bounds[OF x]
  have k: "pow2 ?k \<le> 1 / q" "1 / q < pow2 (?k + 1)" by simp_all
  have inv: "pow2 (- n) = 1 / pow2 n" for n
    by (simp add: pow2_powi power_int_minus inverse_eq_divide)
  show ?thesis
  proof (cases "pow2 ?k = 1 / q")
    case True
    then have q: "q = pow2 (- ?k)"
      using assms by (simp add: inv)
    have "ilog2 q = - ?k"
      using False True by (simp add: ilog2_def)
    then show ?thesis
      using q pow2_strict_mono[of "- ?k" "- ?k + 1"] by simp
  next
    case ne: False
    have e: "ilog2 q = - ?k - 1"
      using False ne by (simp add: ilog2_def Let_def)
    from k(1) ne have "pow2 ?k < 1 / q" by simp
    with assms pow2_pos[of ?k] have up: "q < 1 / pow2 ?k"
      by (simp add: field_simps)
    from k(2) assms pow2_pos[of "?k + 1"] have lo: "1 / pow2 (?k + 1) < q"
      by (simp add: field_simps)
    have "pow2 (- ?k - 1) = 1 / pow2 (?k + 1)"
      using inv[of "?k + 1"] by simp
    moreover have "pow2 (- ?k - 1 + 1) = 1 / pow2 ?k"
      using inv[of ?k] by simp
    ultimately show ?thesis
      unfolding e using lo up by simp
  qed
qed

lemma round_half_even_of_int: "round_half_even (of_int n) = n"
  by (simp add: round_half_even_def)

lemma round_half_even_ge_floor: "\<lfloor>x\<rfloor> \<le> round_half_even x"
  by (simp add: round_half_even_def Let_def)


lemma f64_round_exact:
  assumes a: "\<bar>q\<bar> = of_int k * pow2 j" and k: "\<bar>k\<bar> < 2 ^ 53" and j: "- 1074 \<le> j"
    and r: "\<bar>q\<bar> < pow2 1024"
  shows "f64_round q = Num q"
proof (cases "q = 0")
  case True
  then show ?thesis by (simp add: f64_round_def)
next
  case False
  define e where "e = max (ilog2 \<bar>q\<bar>) (- 1022)"
  define ulp where "ulp = pow2 (e - 52)"
  define x where "x = pow2 (j - (e - 52))"
  from False have pos: "0 < \<bar>q\<bar>" by simp
  have up: "0 < ulp"
    by (simp add: ulp_def pow2_pos)
  have d: "0 \<le> j - (e - 52)"
  proof (cases "ilog2 \<bar>q\<bar> \<le> - 1022")
    case True
    with j show ?thesis by (simp add: e_def)
  next
    case False
    then have e: "e = ilog2 \<bar>q\<bar>" by (simp add: e_def)
    from ilog2_bounds[OF pos] have "pow2 (ilog2 \<bar>q\<bar>) \<le> \<bar>q\<bar>"
      by simp
    also have "\<bar>q\<bar> = of_int k * pow2 j"
      by (rule a)
    also have "of_int k * pow2 j < pow2 53 * pow2 j"
    proof -
      from k have "k < 2 ^ 53"
        by simp
      then have "(of_int k :: rat) < of_int (2 ^ 53)"
        by (simp only: of_int_less_iff)
      then have "(of_int k :: rat) < pow2 53"
        by (simp add: pow2_def)
      with pow2_pos[of j] show ?thesis by simp
    qed
    also have "\<dots> = pow2 (53 + j)"
      by (simp add: pow2_add)
    finally have "ilog2 \<bar>q\<bar> < 53 + j"
      by (rule pow2_less_imp_less)
    with e show ?thesis by simp
  qed
  have "pow2 j = x * ulp"
    unfolding x_def ulp_def using pow2_add[of "j - (e - 52)" "e - 52"] by simp
  with a have qa: "\<bar>q\<bar> = (of_int k * x) * ulp"
    by simp
  with up have q: "\<bar>q\<bar> / ulp = of_int k * x"
    by simp
  define N where "N = k * 2 ^ nat (j - (e - 52))"
  have "x = of_int (2 ^ nat (j - (e - 52)))"
    unfolding x_def using d by (rule pow2_nat)
  then have kx: "of_int k * x = of_int N"
    by (simp add: N_def)
  have rr: "round_half_even (\<bar>q\<bar> / ulp) = N"
    unfolding q kx by (rule round_half_even_of_int)
  have "of_int (round_half_even (\<bar>q\<bar> / ulp)) * ulp = of_int N * ulp"
    by (simp only: rr)
  also have "\<dots> = \<bar>q\<bar>"
    by (simp only: kx[symmetric] qa[symmetric])
  finally have F: "of_int (round_half_even (\<bar>q\<bar> / ulp)) * ulp = \<bar>q\<bar>" .
  have "f64_round q =
      (if pow2 1024 \<le> of_int (round_half_even (\<bar>q\<bar> / ulp)) * ulp
       then (if 0 < q then PosInf else NegInf)
       else Num (if 0 < q then of_int (round_half_even (\<bar>q\<bar> / ulp)) * ulp
                 else - (of_int (round_half_even (\<bar>q\<bar> / ulp)) * ulp)))"
    using False unfolding f64_round_def Let_def e_def[symmetric] ulp_def[symmetric]
    by (simp only: if_False)
  also have "\<dots> = (if pow2 1024 \<le> \<bar>q\<bar> then (if 0 < q then PosInf else NegInf)
                    else Num (if 0 < q then \<bar>q\<bar> else - \<bar>q\<bar>))"
    by (simp only: F)
  also have "\<dots> = Num (if 0 < q then \<bar>q\<bar> else - \<bar>q\<bar>)"
    using r by simp
  also have "\<dots> = Num q"
    by (simp add: abs_if)
  finally show ?thesis .
qed

lemma f64_round_int:
  assumes "\<bar>k\<bar> < 2 ^ 53"
  shows "f64_round (of_int k) = Num (of_int k)"
proof (rule f64_round_exact[where k = "\<bar>k\<bar>" and j = 0])
  show "\<bar>(of_int k :: rat)\<bar> = of_int \<bar>k\<bar> * pow2 0"
    by (simp add: pow2_def)
  show "\<bar>\<bar>k\<bar>\<bar> < 2 ^ 53"
    using assms by simp
  show "- 1074 \<le> (0::int)"
    by simp
  have "\<bar>(of_int k :: rat)\<bar> < of_int (2 ^ 53)"
    using assms by (simp only: of_int_abs[symmetric] of_int_less_iff)
  also have "\<dots> \<le> pow2 1024"
    using pow2_mono[of 53 1024] by (simp add: pow2_def)
  finally show "\<bar>(of_int k :: rat)\<bar> < pow2 1024" .
qed

lemma f64_round_overflow:
  assumes "pow2 1024 \<le> \<bar>q\<bar>"
  shows "f64_round q = (if 0 < q then PosInf else NegInf)"
proof -
  let ?a = "\<bar>q\<bar>"
  from assms pow2_pos[of 1024] have pos: "0 < ?a" and ne: "q \<noteq> 0"
    by auto
  from ilog2_bounds[OF pos] assms have "pow2 1024 < pow2 (ilog2 ?a + 1)"
    by simp
  then have big: "1024 \<le> ilog2 ?a"
    using pow2_less_imp_less[of 1024 "ilog2 ?a + 1"] by simp
  then have e: "max (ilog2 ?a) (- 1022) = ilog2 ?a"
    by simp
  let ?ulp = "pow2 (ilog2 ?a - 52)"
  have "pow2 (ilog2 ?a) = pow2 52 * ?ulp"
    using pow2_add[of 52 "ilog2 ?a - 52"] by simp
  with ilog2_bounds[OF pos] pow2_pos[of "ilog2 ?a - 52"] have "pow2 52 \<le> ?a / ?ulp"
    by (simp add: field_simps)
  then have "of_int (2 ^ 52) \<le> ?a / ?ulp"
    by (simp add: pow2_def)
  then have "2 ^ 52 \<le> \<lfloor>?a / ?ulp\<rfloor>"
    by (simp only: le_floor_iff)
  then have "2 ^ 52 \<le> round_half_even (?a / ?ulp)"
    using round_half_even_ge_floor[of "?a / ?ulp"] by (rule order_trans)
  then have "(of_int (2 ^ 52) :: rat) \<le> of_int (round_half_even (?a / ?ulp))"
    by (simp only: of_int_le_iff)
  then have "pow2 52 * ?ulp \<le> of_int (round_half_even (?a / ?ulp)) * ?ulp"
    using pow2_pos[of "ilog2 ?a - 52"] by (simp add: pow2_def)
  also have "pow2 52 * ?ulp = pow2 (ilog2 ?a)"
    using pow2_add[of 52 "ilog2 ?a - 52"] by simp
  finally have "pow2 1024 \<le> of_int (round_half_even (?a / ?ulp)) * ?ulp"
    using pow2_mono[OF big] by simp
  then show ?thesis
    using ne unfolding f64_round_def Let_def e by (simp only: if_False if_True)
qed

lemma floor_rat_numeral: "\<lfloor>numeral a / numeral b :: rat\<rfloor> = numeral a div numeral b"
  using floor_divide_of_int_eq[of "numeral a" "numeral b", where ?'a = rat] by simp

lemma f64_round_ten_thirds:
  "f64_round (10 / 3) = Num (7505999378950827 / 2251799813685248)"
  unfolding f64_round_def Let_def
  apply (simp add: ilog2_def log2_ge1.simps)
  apply (simp add: pow2_def round_half_even_def Let_def floor_rat_numeral)
  done


section \<open>Missing values: filling numeric columns with the mean or the median\<close>

lemma filter_name_unique:
  assumes "distinct (map name df)" and "c \<in> set df"
  shows "filter (\<lambda>x. name x = name c) df = [c]"
  using assms
proof (induction df)
  case Nil
  then show ?case by simp
next
  case (Cons a df)
  show ?case
  proof (cases "a = c")
    case True
    from Cons.prems(1) have "name a \<notin> name ` set df"
      by simp
    then have "\<forall>x \<in> set df. name x \<noteq> name a"
      by (metis imageI)
    then have "filter (\<lambda>x. name x = name a) df = []"
      by (simp add: filter_empty_conv)
    with True show ?thesis by simp
  next
    case False
    with Cons.prems have c: "c \<in> set df" and "name a \<noteq> name c"
      by auto
    with Cons show ?thesis by simp
  qed
qed

lemma getitem_unique:
  "distinct (map name df) \<Longrightarrow> c \<in> set df \<Longrightarrow> getitem df (name c) = Inr [c]"
  by (simp add: getitem_def filter_name_unique)

lemma name_fill_column: "name (fill_column stat c) = name c"
  by (simp add: fill_column_def split: sum.split)

lemma dtype_fill_column: "dtype (fill_column stat c) = dtype c"
  by (simp add: fill_column_def split: sum.split)

lemma setitem_filled_unique:
  assumes d: "distinct (map name df)" and c: "c \<in> set df" and v: "stat c = Inr v"
  shows "setitem_filled df (name c) [v]
         = map (\<lambda>x. if name x = name c then fill_column stat x else x) df"
proof -
  have "(if name x = name c then x\<lparr>cells := fill_values [v] (cells x)\<rparr> else x)
        = (if name x = name c then fill_column stat x else x)" if x: "x \<in> set df" for x
  proof (cases "name x = name c")
    case True
    with x d c have "x = c"
      by (meson distinct_map inj_onD)
    with v show ?thesis
      by (simp add: fill_column_def fill_values_def)
  next
    case False
    then show ?thesis by simp
  qed
  then show ?thesis
    by (simp add: setitem_filled_def)
qed

lemma fill_each_step_unique:
  assumes d: "distinct (map name df)" and c: "c \<in> set df" and v: "stat c = Inr v"
  shows "fill_each stat (name c # ns) df
         = fill_each stat ns (map (\<lambda>x. if name x = name c then fill_column stat x else x) df)"
proof -
  have "frame_stat stat [c] = Inr [v]"
    using v by simp
  then show ?thesis
    using setitem_filled_unique[of df c stat v] d c v by (simp add: getitem_unique)
qed

lemma fill_each_labels:
  assumes "distinct (map name df)" and "distinct ns" and "set ns \<subseteq> name ` set df"
    and "\<forall>c \<in> set df. name c \<in> set ns \<longrightarrow> (\<exists>v. stat c = Inr v)"
  shows "fill_each stat ns df
         = Inr (map (\<lambda>c. if name c \<in> set ns then fill_column stat c else c) df)"
  using assms
proof (induction ns arbitrary: df)
  case Nil
  then show ?case by simp
next
  case (Cons n ns)
  from Cons.prems(3) obtain c where c: "c \<in> set df" and n: "n = name c"
    by auto
  with Cons.prems(4) obtain v where v: "stat c = Inr v"
    by auto
  let ?df1 = "map (\<lambda>x. if name x = n then fill_column stat x else x) df"
  have names: "map name ?df1 = map name df"
    by (simp add: comp_def name_fill_column if_distrib[of name] cong: if_cong)
  have step: "fill_each stat (n # ns) df = fill_each stat ns ?df1"
    unfolding n using Cons.prems(1) c v by (rule fill_each_step_unique)
  have "fill_each stat ns ?df1
        = Inr (map (\<lambda>c. if name c \<in> set ns then fill_column stat c else c) ?df1)"
  proof (rule Cons.IH)
    show "distinct (map name ?df1)"
      by (simp only: names Cons.prems(1))
    show "distinct ns"
      using Cons.prems(2) by simp
    have "name ` set ?df1 = name ` set df"
      using names by (metis list.set_map)
    with Cons.prems(3) show "set ns \<subseteq> name ` set ?df1"
      by simp
    show "\<forall>c \<in> set ?df1. name c \<in> set ns \<longrightarrow> (\<exists>v. stat c = Inr v)"
    proof (intro ballI impI)
      fix y assume y: "y \<in> set ?df1" and yn: "name y \<in> set ns"
      from y obtain x where x: "x \<in> set df"
        and yx: "y = (if name x = n then fill_column stat x else x)"
        by auto
      from yn Cons.prems(2) have "name y \<noteq> n"
        by auto
      with yx have "y = x"
        by (auto simp: name_fill_column split: if_splits)
      with x yn Cons.prems(4) show "\<exists>v. stat y = Inr v"
        by simp
    qed
  qed
  also have "map (\<lambda>c. if name c \<in> set ns then fill_column stat c else c) ?df1
             = map (\<lambda>c. if name c \<in> set (n # ns) then fill_column stat c else c) df"
    using Cons.prems(2) by (auto simp: name_fill_column)
  finally show ?case using step by simp
qed

lemma numeric_label_iff:
  assumes d: "distinct (map name df)" and c: "c \<in> set df"
  shows "name c \<in> set (numeric_columns df) \<longleftrightarrow> dtype c = Number"
proof
  assume "name c \<in> set (numeric_columns df)"
  then obtain y where y: "y \<in> set df" "dtype y = Number" "name y = name c"
    by (auto simp: numeric_columns_def)
  with d c have "y = c"
    by (meson distinct_map inj_onD)
  with y show "dtype c = Number" by simp
next
  assume "dtype c = Number"
  with c show "name c \<in> set (numeric_columns df)"
    by (auto simp: numeric_columns_def)
qed

lemma fill_each_numeric:
  assumes d: "distinct (map name df)"
    and r: "\<forall>c \<in> set df. dtype c = Number \<longrightarrow> (\<exists>v. stat c = Inr v)"
  shows "fill_each stat (numeric_columns df) df
         = Inr (map (\<lambda>c. if dtype c = Number then fill_column stat c else c) df)"
proof -
  have "distinct (numeric_columns df)"
    unfolding numeric_columns_def using d by (rule distinct_map_filter)
  moreover have "set (numeric_columns df) \<subseteq> name ` set df"
    by (auto simp: numeric_columns_def)
  moreover have "\<forall>c \<in> set df. name c \<in> set (numeric_columns df) \<longrightarrow> (\<exists>v. stat c = Inr v)"
    using r d by (simp add: numeric_label_iff)
  ultimately have "fill_each stat (numeric_columns df) df
      = Inr (map (\<lambda>c. if name c \<in> set (numeric_columns df) then fill_column stat c else c) df)"
    using d by (intro fill_each_labels)
  also have "map (\<lambda>c. if name c \<in> set (numeric_columns df) then fill_column stat c else c) df
      = map (\<lambda>c. if dtype c = Number then fill_column stat c else c) df"
    using d by (auto simp: numeric_label_iff)
  finally show ?thesis .
qed

lemma no_text_in_numeric:
  "well_typed c \<Longrightarrow> dtype c = Number \<Longrightarrow> \<not> list_ex is_text (cells c)"
  by (auto simp: well_typed_def list_all_iff list_ex_iff is_text_def split: cell.splits)

lemma column_mean_no_text:
  "\<not> list_ex is_text (cells c) \<Longrightarrow>
     column_mean c = Inr
       (if filter (\<lambda>x. \<not> isna x) (cells c) = [] then Missing
        else f64_div
               (if dtype c = Number
                then pairwise_sum (map (\<lambda>x. if isna x then Num 0 else as_float x) (cells c))
                else foldl f64_add (Num 0) (map (\<lambda>x. if isna x then Num 0 else as_float x) (cells c)))
               (of_nat (length (filter (\<lambda>x. \<not> isna x) (cells c)))))"
  by (simp add: column_mean_def Let_def)

lemma column_median_no_text:
  "\<not> list_ex is_text (cells c) \<Longrightarrow> \<exists>v. column_median c = Inr v"
  by (simp add: column_median_def Let_def)

lemma fillna_Missing: "fillna Missing xs = xs"
  by (simp add: fillna_def isna_def map_idI)

lemma handle_fill_mean:
  assumes "distinct (map name df)" and "list_all well_typed df"
  shows "handle_missing_values df ''Fill with mean''
         = Inr (map (\<lambda>c. if dtype c = Number then fill_column column_mean c else c) df)"
proof -
  have "\<exists>v. column_mean c = Inr v" if "c \<in> set df" "dtype c = Number" for c
  proof -
    from that assms(2) have "well_typed c"
      by (simp add: list_all_iff)
    from column_mean_no_text[OF no_text_in_numeric[OF this that(2)]] show ?thesis
      by blast
  qed
  then have "\<forall>c \<in> set df. dtype c = Number \<longrightarrow> (\<exists>v. column_mean c = Inr v)"
    by blast
  with assms(1) show ?thesis
    by (simp add: handle_missing_values_def fill_each_numeric)
qed

lemma handle_fill_median:
  assumes "distinct (map name df)" and "list_all well_typed df"
  shows "handle_missing_values df ''Fill with median''
         = Inr (map (\<lambda>c. if dtype c = Number then fill_column column_median c else c) df)"
proof -
  have "\<exists>v. column_median c = Inr v" if "c \<in> set df" "dtype c = Number" for c
  proof -
    from that assms(2) have "well_typed c"
      by (simp add: list_all_iff)
    from column_median_no_text[OF no_text_in_numeric[OF this that(2)]] show ?thesis .
  qed
  then have "\<forall>c \<in> set df. dtype c = Number \<longrightarrow> (\<exists>v. column_median c = Inr v)"
    by blast
  with assms(1) show ?thesis
    by (simp add: handle_missing_values_def fill_each_numeric)
qed

lemma f64_round_zero: "f64_round 0 = Num 0"
  by (simp add: f64_round_def)

lemma f64_round_one: "f64_round 1 = Num 1"
  using f64_round_int[of 1] by simp

lemma f64_round_numeral:
  "(numeral n :: int) < 2 ^ 53 \<Longrightarrow> f64_round (numeral n) = Num (numeral n)"
  using f64_round_int[of "numeral n"] by simp

lemma f64_round_half: "f64_round (1 / 2) = Num (1 / 2)"
  using f64_round_exact[of "1 / 2" 1 "- 1"] by (simp add: pow2_def)

lemma f64_round_top: "f64_round (2 ^ 1023) = Num (2 ^ 1023)"
proof (rule f64_round_exact[where k = 1 and j = 1023])
  show "\<bar>2 ^ 1023 :: rat\<bar> = of_int 1 * pow2 1023"
    by (simp add: pow2_def)
  show "\<bar>1 :: int\<bar> < 2 ^ 53"
    by simp
  show "- 1074 \<le> (1023 :: int)"
    by simp
  show "\<bar>2 ^ 1023 :: rat\<bar> < pow2 1024"
    using pow2_strict_mono[of 1023 1024] by (simp add: pow2_def)
qed

lemma f64_round_top_twice: "f64_round (2 ^ 1023 + 2 ^ 1023) = PosInf"
proof -
  have "(2 ^ 1023 + 2 ^ 1023 :: rat) = pow2 1024"
    using pow2_add[of 1023 1] by (simp add: pow2_def)
  then show ?thesis
    using f64_round_overflow[of "pow2 1024"] pow2_pos[of 1024] by simp
qed

lemma f64_round_twice_top: "f64_round (2 * 2 ^ 1023) = PosInf"
  using f64_round_top_twice by (simp del: power_numeral)

lemma mean_1_3_6:
  "column_mean \<lparr>name = ''v'', dtype = Number, cells = [Num 1, Missing, Num 3, Num 6]\<rparr>
   = Inr (Num (7505999378950827 / 2251799813685248))"
  by (simp add: column_mean_def Let_def is_text_def isna_def as_float_def pairwise_sum.simps
      f64_round_one f64_round_numeral f64_round_ten_thirds)

text \<open>
  C2 (as amended).  With the method \<open>Fill with mean\<close>, on a table whose labels are pairwise
  distinct, \<^verbatim>\<open>handle_missing_values\<close> replaces each missing cell of every numeric column
  by the \<^verbatim>\<open>float64\<close> mean of the column and keeps the other cells: the cells that are not
  missing are added in \<^verbatim>\<open>float64\<close> (the missing ones count as 0; pairwise summation,
  every addition rounded, a sum beyond the range being an infinity) and the sum is divided
  by their number; a column without a value is left as it is.  The numeric column
  \<open>1, NaN, 3\<close> becomes \<open>1, 2, 3\<close>.
\<close>

theorem fill_mean_numeric_column:
  assumes d: "distinct (map name df)" and t: "list_all well_typed df"
    and j: "j < length df" and num: "dtype (df ! j) = Number"
  shows "(\<exists>df' v. handle_missing_values df ''Fill with mean'' = Inr df'
            \<and> length df' = length df
            \<and> name (df' ! j) = name (df ! j)
            \<and> dtype (df' ! j) = Number
            \<and> cells (df' ! j) = map (\<lambda>x. if x = Missing then v else x) (cells (df ! j))
            \<and> column_mean (df ! j) = Inr v
            \<and> v = (if filter (\<lambda>x. x \<noteq> Missing) (cells (df ! j)) = [] then Missing
                   else f64_div
                          (pairwise_sum
                             (map (\<lambda>x. if x = Missing then Num 0 else as_float x) (cells (df ! j))))
                          (of_nat (length (filter (\<lambda>x. x \<noteq> Missing) (cells (df ! j)))))))
         \<and> handle_missing_values
             [\<lparr>name = ''v'', dtype = Number, cells = [Num 1, Missing, Num 3]\<rparr>] ''Fill with mean''
           = Inr [\<lparr>name = ''v'', dtype = Number, cells = [Num 1, Num 2, Num 3]\<rparr>]"
proof (intro conjI)
  let ?d = "map (\<lambda>c. if dtype c = Number then fill_column column_mean c else c) df"
  let ?v = "if filter (\<lambda>x. x \<noteq> Missing) (cells (df ! j)) = [] then Missing
            else f64_div
                   (pairwise_sum
                      (map (\<lambda>x. if x = Missing then Num 0 else as_float x) (cells (df ! j))))
                   (of_nat (length (filter (\<lambda>x. x \<noteq> Missing) (cells (df ! j)))))"
  from t j have "well_typed (df ! j)"
    by (simp add: list_all_length)
  then have "\<not> list_ex is_text (cells (df ! j))"
    using num by (rule no_text_in_numeric)
  then have m: "column_mean (df ! j) = Inr ?v"
    using num by (simp add: column_mean_no_text isna_def)
  have "handle_missing_values df ''Fill with mean'' = Inr ?d"
    using d t by (rule handle_fill_mean)
  moreover have "length ?d = length df"
    by simp
  moreover have "?d ! j = fill_column column_mean (df ! j)"
    using j num by simp
  then have "name (?d ! j) = name (df ! j)" "dtype (?d ! j) = Number"
    and "cells (?d ! j) = map (\<lambda>x. if x = Missing then ?v else x) (cells (df ! j))"
    using num by (simp_all add: fill_column_def fillna_def isna_def m)
  ultimately show "\<exists>df' v. handle_missing_values df ''Fill with mean'' = Inr df'
            \<and> length df' = length df
            \<and> name (df' ! j) = name (df ! j)
            \<and> dtype (df' ! j) = Number
            \<and> cells (df' ! j) = map (\<lambda>x. if x = Missing then v else x) (cells (df ! j))
            \<and> column_mean (df ! j) = Inr v
            \<and> v = (if filter (\<lambda>x. x \<noteq> Missing) (cells (df ! j)) = [] then Missing
                   else f64_div
                          (pairwise_sum
                             (map (\<lambda>x. if x = Missing then Num 0 else as_float x) (cells (df ! j))))
                          (of_nat (length (filter (\<lambda>x. x \<noteq> Missing) (cells (df ! j))))))"
    using m by blast
next
  have "column_mean \<lparr>name = ''v'', dtype = Number, cells = [Num 1, Missing, Num 3]\<rparr> = Inr (Num 2)"
    by (simp add: column_mean_def Let_def is_text_def isna_def as_float_def pairwise_sum.simps
        f64_round_one f64_round_numeral)
  then show "handle_missing_values
             [\<lparr>name = ''v'', dtype = Number, cells = [Num 1, Missing, Num 3]\<rparr>] ''Fill with mean''
           = Inr [\<lparr>name = ''v'', dtype = Number, cells = [Num 1, Num 2, Num 3]\<rparr>]"
    by (simp add: handle_missing_values_def numeric_columns_def getitem_def setitem_filled_def
        fill_values_def fillna_def isna_def)
qed

text \<open>
  C2, an instance: the \<^verbatim>\<open>float64\<close> mean of 1, 3 and 6 is the \<^verbatim>\<open>float64\<close> value nearest
  to 10/3, which is \<open>7505999378950827 / 2^51\<close> (printed 3.3333333333333335).
\<close>

theorem fill_mean_numeric_column_witness:
  "distinct (map name
       [\<lparr>name = ''t'', dtype = Object, cells = [Text ''a'', Missing, Text ''c'', Text ''d'']\<rparr>,
        \<lparr>name = ''v'', dtype = Number, cells = [Num 1, Missing, Num 3, Num 6]\<rparr>])
   \<and> list_all well_typed
       [\<lparr>name = ''t'', dtype = Object, cells = [Text ''a'', Missing, Text ''c'', Text ''d'']\<rparr>,
        \<lparr>name = ''v'', dtype = Number, cells = [Num 1, Missing, Num 3, Num 6]\<rparr>]
   \<and> handle_missing_values
        [\<lparr>name = ''t'', dtype = Object, cells = [Text ''a'', Missing, Text ''c'', Text ''d'']\<rparr>,
         \<lparr>name = ''v'', dtype = Number, cells = [Num 1, Missing, Num 3, Num 6]\<rparr>] ''Fill with mean''
      = Inr [\<lparr>name = ''t'', dtype = Object, cells = [Text ''a'', Missing, Text ''c'', Text ''d'']\<rparr>,
             \<lparr>name = ''v'', dtype = Number,
              cells = [Num 1, Num (7505999378950827 / 2251799813685248), Num 3, Num 6]\<rparr>]"
proof -
  let ?t = "\<lparr>name = ''t'', dtype = Object, cells = [Text ''a'', Missing, Text ''c'', Text ''d'']\<rparr>"
  let ?c = "\<lparr>name = ''v'', dtype = Number, cells = [Num 1, Missing, Num 3, Num 6]\<rparr>"
  let ?df = "[?t, ?c]"
  have d: "distinct (map name ?df)"
    by simp
  have t: "list_all well_typed ?df"
    by (simp add: well_typed_def)
  have j: "(1::nat) < length ?df" and num: "dtype (?df ! 1) = Number"
    by simp_all
  from fill_mean_numeric_column[OF d t j num] obtain df' v where
    h: "handle_missing_values ?df ''Fill with mean'' = Inr df'"
    and l: "length df' = length ?df"
    and c: "cells (df' ! 1) = map (\<lambda>x. if x = Missing then v else x) (cells (?df ! 1))"
    and m: "column_mean (?df ! 1) = Inr v"
    by blast
  from m have v: "v = Num (7505999378950827 / 2251799813685248)"
    by (simp add: mean_1_3_6)
  have "handle_missing_values ?df ''Fill with mean''
      = Inr [?t, \<lparr>name = ''v'', dtype = Number,
              cells = [Num 1, Num (7505999378950827 / 2251799813685248), Num 3, Num 6]\<rparr>]"
    using mean_1_3_6
    by (simp add: handle_missing_values_def numeric_columns_def getitem_def setitem_filled_def
        fill_values_def fillna_def isna_def)
  with d t show ?thesis
    by blast
qed

text \<open>
  C2 (as stated) fails: the mean is computed in \<^verbatim>\<open>float64\<close>.  The arithmetic mean of
  \<open>2^1023\<close> and \<open>2^1023\<close> is \<open>2^1023\<close>, a \<^verbatim>\<open>float64\<close> value; their \<^verbatim>\<open>float64\<close> sum is
  infinite, and the missing cell is filled with \<^verbatim>\<open>inf\<close>.
\<close>

theorem fill_mean_overflow_counterexample:
  "handle_missing_values
      [\<lparr>name = ''v'', dtype = Number, cells = [Num (2 ^ 1023), Num (2 ^ 1023), Missing]\<rparr>]
      ''Fill with mean''
    = Inr [\<lparr>name = ''v'', dtype = Number, cells = [Num (2 ^ 1023), Num (2 ^ 1023), PosInf]\<rparr>]
   \<and> (2 ^ 1023 + 2 ^ 1023) / 2 = (2 ^ 1023 :: rat)
   \<and> PosInf \<noteq> Num (2 ^ 1023)"
proof -
  have "column_mean \<lparr>name = ''v'', dtype = Number,
                     cells = [Num (2 ^ 1023), Num (2 ^ 1023), Missing]\<rparr> = Inr PosInf"
    by (simp add: column_mean_def Let_def is_text_def isna_def as_float_def pairwise_sum.simps
        f64_round_top f64_round_top_twice f64_round_twice_top del: power_numeral)
  then have "handle_missing_values
      [\<lparr>name = ''v'', dtype = Number, cells = [Num (2 ^ 1023), Num (2 ^ 1023), Missing]\<rparr>]
      ''Fill with mean''
    = Inr [\<lparr>name = ''v'', dtype = Number, cells = [Num (2 ^ 1023), Num (2 ^ 1023), PosInf]\<rparr>]"
    by (simp add: handle_missing_values_def numeric_columns_def getitem_def setitem_filled_def
        fill_values_def fillna_def isna_def del: power_numeral)
  then show ?thesis
    by simp
qed

lemma fill_leaves_other_columns:
  assumes d: "distinct (map name df)" and t: "list_all well_typed df"
    and m: "method = ''Fill with mean'' \<or> method = ''Fill with median''"
  shows "\<exists>df'. handle_missing_values df method = Inr df'
           \<and> length df' = length df
           \<and> (\<forall>j < length df. dtype (df ! j) \<noteq> Number \<longrightarrow> df' ! j = df ! j)
           \<and> map name df' = map name df
           \<and> map dtype df' = map dtype df"
proof -
  obtain stat where h: "handle_missing_values df method
      = Inr (map (\<lambda>c. if dtype c = Number then fill_column stat c else c) df)"
    using m handle_fill_mean[OF d t] handle_fill_median[OF d t] by blast
  let ?d = "map (\<lambda>c. if dtype c = Number then fill_column stat c else c) df"
  have "length ?d = length df"
    by simp
  moreover have "\<forall>j < length df. dtype (df ! j) \<noteq> Number \<longrightarrow> ?d ! j = df ! j"
    by simp
  moreover have "map name ?d = map name df" "map dtype ?d = map dtype df"
    by (simp_all add: comp_def name_fill_column dtype_fill_column
        if_distrib[of name] if_distrib[of dtype] cong: if_cong)
  ultimately show ?thesis using h by blast
qed

text \<open>
  C8 does not hold of the code when a numeric column shares its label with another column,
  as the columns \<open>Flag\<close> and \<open>flag\<close> do after \<^verbatim>\<open>clean_column_names\<close>.  Then
  \<^verbatim>\<open>df[col]\<close> is a frame of both columns, \<^verbatim>\<open>df[col].mean()\<close> has one mean for each,
  and \<^verbatim>\<open>fillna\<close> fills the missing cells of both columns with the first of them: the
  \<^verbatim>\<open>object\<close> column \<open>True, NaN, False\<close> becomes \<open>True, 0.5, False\<close>, and the numeric
  column \<open>1, 3, NaN\<close> gets 0.5, the mean of the other column.
\<close>

theorem fill_mean_shared_label_changes_object_column:
  "clean_column_names
      [\<lparr>name = ''Flag'', dtype = Object, cells = [Bool True, Missing, Bool False]\<rparr>,
       \<lparr>name = ''flag'', dtype = Number, cells = [Num 1, Num 3, Missing]\<rparr>]
    = [\<lparr>name = ''flag'', dtype = Object, cells = [Bool True, Missing, Bool False]\<rparr>,
       \<lparr>name = ''flag'', dtype = Number, cells = [Num 1, Num 3, Missing]\<rparr>]
   \<and> map_sum id (map cells)
       (handle_missing_values
          [\<lparr>name = ''flag'', dtype = Object, cells = [Bool True, Missing, Bool False]\<rparr>,
           \<lparr>name = ''flag'', dtype = Number, cells = [Num 1, Num 3, Missing]\<rparr>]
          ''Fill with mean'')
    = Inr [[Bool True, Num (1 / 2), Bool False], [Num 1, Num 3, Num (1 / 2)]]"
proof -
  have c: "clean_column_names
      [\<lparr>name = ''Flag'', dtype = Object, cells = [Bool True, Missing, Bool False]\<rparr>,
       \<lparr>name = ''flag'', dtype = Number, cells = [Num 1, Num 3, Missing]\<rparr>]
    = [\<lparr>name = ''flag'', dtype = Object, cells = [Bool True, Missing, Bool False]\<rparr>,
       \<lparr>name = ''flag'', dtype = Number, cells = [Num 1, Num 3, Missing]\<rparr>]"
    by code_simp
  have m1: "column_mean \<lparr>name = ''flag'', dtype = Object, cells = [Bool True, Missing, Bool False]\<rparr>
            = Inr (Num (1 / 2))"
    by (simp add: column_mean_def Let_def is_text_def isna_def as_float_def
        f64_round_one f64_round_half)
  have m2: "column_mean \<lparr>name = ''flag'', dtype = Number, cells = [Num 1, Num 3, Missing]\<rparr>
            = Inr (Num 2)"
    by (simp add: column_mean_def Let_def is_text_def isna_def as_float_def pairwise_sum.simps
        f64_round_one f64_round_numeral)
  have "handle_missing_values
          [\<lparr>name = ''flag'', dtype = Object, cells = [Bool True, Missing, Bool False]\<rparr>,
           \<lparr>name = ''flag'', dtype = Number, cells = [Num 1, Num 3, Missing]\<rparr>]
          ''Fill with mean''
        = Inr [\<lparr>name = ''flag'', dtype = Object, cells = [Bool True, Num (1 / 2), Bool False]\<rparr>,
               \<lparr>name = ''flag'', dtype = Number, cells = [Num 1, Num 3, Num (1 / 2)]\<rparr>]"
    using m1 m2
    by (simp add: handle_missing_values_def numeric_columns_def getitem_def setitem_filled_def
        fill_values_def fillna_def isna_def)
  with c show ?thesis
    by simp
qed

lemma fill_column_all_missing:
  assumes "\<forall>x \<in> set (cells c). x = Missing" and "stat = column_mean \<or> stat = column_median"
  shows "stat c = Inr Missing \<and> fill_column stat c = c"
proof -
  from assms(1) have f: "filter (\<lambda>x. \<not> isna x) (cells c) = []"
    by (simp add: filter_empty_conv isna_def)
  from assms(1) have "\<not> list_ex is_text (cells c)"
    by (auto simp: list_ex_iff is_text_def)
  with f have "column_mean c = Inr Missing" "column_median c = Inr Missing"
    by (simp_all add: column_mean_def column_median_def Let_def sort_cells_def)
  with assms(2) show ?thesis
    by (auto simp: fill_column_def fillna_Missing)
qed

lemma fill_keeps_all_missing_column:
  assumes d: "distinct (map name df)" and t: "list_all well_typed df"
    and m: "method = ''Fill with mean'' \<or> method = ''Fill with median''"
    and j: "j < length df" and num: "dtype (df ! j) = Number"
    and a: "\<forall>x \<in> set (cells (df ! j)). x = Missing"
  shows "column_mean (df ! j) = Inr Missing \<and> column_median (df ! j) = Inr Missing
         \<and> (\<exists>df'. handle_missing_values df method = Inr df'
               \<and> length df' = length df
               \<and> df' ! j = df ! j)"
proof -
  obtain stat where s: "stat = column_mean \<or> stat = column_median"
    and h: "handle_missing_values df method
      = Inr (map (\<lambda>c. if dtype c = Number then fill_column stat c else c) df)"
    using m handle_fill_mean[OF d t] handle_fill_median[OF d t] by blast
  let ?d = "map (\<lambda>c. if dtype c = Number then fill_column stat c else c) df"
  have "?d ! j = df ! j"
    using j num fill_column_all_missing[OF a s] by simp
  with h have "\<exists>df'. handle_missing_values df method = Inr df'
               \<and> length df' = length df
               \<and> df' ! j = df ! j"
    by auto
  with fill_column_all_missing[OF a] show ?thesis by blast
qed

text \<open>
  C10 does not hold of the code when the numeric column without a value shares its label
  with another numeric column, as the columns \<open>A\<close> and \<open>a\<close> do after
  \<^verbatim>\<open>clean_column_names\<close>.  The means of the two columns are \<^verbatim>\<open>NaN\<close> and 2;
  \<^verbatim>\<open>fillna\<close> fills with each in turn, so every cell of the column without a value
  becomes 2.
\<close>

theorem fill_mean_shared_label_fills_empty_column:
  "clean_column_names
      [\<lparr>name = ''A'', dtype = Number, cells = [Missing, Missing, Missing]\<rparr>,
       \<lparr>name = ''a'', dtype = Number, cells = [Num 1, Missing, Num 3]\<rparr>]
    = [\<lparr>name = ''a'', dtype = Number, cells = [Missing, Missing, Missing]\<rparr>,
       \<lparr>name = ''a'', dtype = Number, cells = [Num 1, Missing, Num 3]\<rparr>]
   \<and> handle_missing_values
       [\<lparr>name = ''a'', dtype = Number, cells = [Missing, Missing, Missing]\<rparr>,
        \<lparr>name = ''a'', dtype = Number, cells = [Num 1, Missing, Num 3]\<rparr>]
       ''Fill with mean''
    = Inr [\<lparr>name = ''a'', dtype = Number, cells = [Num 2, Num 2, Num 2]\<rparr>,
           \<lparr>name = ''a'', dtype = Number, cells = [Num 1, Num 2, Num 3]\<rparr>]"
proof -
  have c: "clean_column_names
      [\<lparr>name = ''A'', dtype = Number, cells = [Missing, Missing, Missing]\<rparr>,
       \<lparr>name = ''a'', dtype = Number, cells = [Num 1, Missing, Num 3]\<rparr>]
    = [\<lparr>name = ''a'', dtype = Number, cells = [Missing, Missing, Missing]\<rparr>,
       \<lparr>name = ''a'', dtype = Number, cells = [Num 1, Missing, Num 3]\<rparr>]"
    by code_simp
  have m1: "column_mean \<lparr>name = ''a'', dtype = Number, cells = [Missing, Missing, Missing]\<rparr>
            = Inr Missing"
    by (simp add: column_mean_def Let_def is_text_def isna_def)
  have m2: "column_mean \<lparr>name = ''a'', dtype = Number, cells = [Num 1, Missing, Num 3]\<rparr>
            = Inr (Num 2)"
    by (simp add: column_mean_def Let_def is_text_def isna_def as_float_def pairwise_sum.simps
        f64_round_one f64_round_numeral)
  have m3: "column_mean \<lparr>name = ''a'', dtype = Number, cells = [Num 2, Num 2, Num 2]\<rparr>
            = Inr (Num 2)"
    by (simp add: column_mean_def Let_def is_text_def isna_def as_float_def pairwise_sum.simps
        f64_round_one f64_round_numeral)
  have m4: "column_mean \<lparr>name = ''a'', dtype = Number, cells = [Num 1, Num 2, Num 3]\<rparr>
            = Inr (Num 2)"
    by (simp add: column_mean_def Let_def is_text_def isna_def as_float_def pairwise_sum.simps
        f64_round_one f64_round_numeral)
  have "handle_missing_values
       [\<lparr>name = ''a'', dtype = Number, cells = [Missing, Missing, Missing]\<rparr>,
        \<lparr>name = ''a'', dtype = Number, cells = [Num 1, Missing, Num 3]\<rparr>]
       ''Fill with mean''
    = Inr [\<lparr>name = ''a'', dtype = Number, cells = [Num 2, Num 2, Num 2]\<rparr>,
           \<lparr>name = ''a'', dtype = Number, cells = [Num 1, Num 2, Num 3]\<rparr>]"
    using m1 m2 m3 m4
    by (simp add: handle_missing_values_def numeric_columns_def getitem_def setitem_filled_def
        fill_values_def fillna_def isna_def)
  with c show ?thesis
    by simp
qed


section \<open>The error boundary of the upload pipeline\<close>

lemma bind_ui_Inl: "m page = (p, Inl e) \<Longrightarrow> bind_ui m f page = (p, Inl e)"
  by (simp add: bind_ui_def)

lemma bind_ui_Inr: "m page = (p, Inr x) \<Longrightarrow> bind_ui m f page = f x p"
  by (simp add: bind_ui_def)

lemma first_failure_append_Some:
  "first_failure rnd xs = Some (k, e) \<Longrightarrow>
     first_failure rnd (xs @ ys) = Some (k, e) \<and> k < length xs"
proof (induction xs arbitrary: k)
  case Nil
  then show ?case by simp
next
  case (Cons x xs)
  show ?case
  proof (cases "rnd x")
    case (Some e')
    with Cons.prems show ?thesis by simp
  next
    case None
    with Cons.prems obtain k' where k': "first_failure rnd xs = Some (k', e)" and k: "k = Suc k'"
      by (cases "first_failure rnd xs") auto
    from Cons.IH[OF k'] None k show ?thesis by simp
  qed
qed

lemma first_failure_append_None:
  "first_failure rnd xs = None \<Longrightarrow>
     first_failure rnd (xs @ ys)
     = (case first_failure rnd ys of None \<Rightarrow> None | Some (k, e) \<Rightarrow> Some (length xs + k, e))"
proof (induction xs)
  case Nil
  then show ?case by (simp split: option.split)
next
  case (Cons x xs)
  from Cons.prems have x: "rnd x = None" and xs: "first_failure rnd xs = None"
    by (auto split: option.splits)
  from Cons.IH[OF xs] x show ?case
    by (simp split: option.split)
qed

lemma cut_ofD:
  assumes "cut_of rnd m m0"
  shows "\<exists>added. fst (m0 page) = page @ added \<and>
        (first_failure rnd added = None \<longrightarrow> m page = m0 page) \<and>
        (\<forall>k e. first_failure rnd added = Some (k, e) \<longrightarrow> m page = (page @ take k added, Inl e))"
proof -
  from assms have "\<exists>added. fst (m0 page) = page @ added \<and>
        (case first_failure rnd added of
           None \<Rightarrow> m page = m0 page
         | Some (k, e) \<Rightarrow> m page = (page @ take k added, Inl e))"
    unfolding cut_of_def by (rule spec)
  then obtain added where a: "fst (m0 page) = page @ added"
    and c: "(case first_failure rnd added of
               None \<Rightarrow> m page = m0 page
             | Some (k, e) \<Rightarrow> m page = (page @ take k added, Inl e))"
    by (elim exE conjE)
  have n: "first_failure rnd added = None \<longrightarrow> m page = m0 page"
  proof
    assume h: "first_failure rnd added = None"
    from c show "m page = m0 page"
      unfolding h by simp
  qed
  have s: "\<forall>k e. first_failure rnd added = Some (k, e)
      \<longrightarrow> m page = (page @ take k added, Inl e)"
  proof (intro allI impI)
    fix k e
    assume h: "first_failure rnd added = Some (k, e)"
    from c show "m page = (page @ take k added, Inl e)"
      unfolding h by simp
  qed
  from a n s show ?thesis
    by (intro exI[of _ added] conjI)
qed

lemma cut_ofI:
  assumes "\<And>page. \<exists>added. fst (m0 page) = page @ added \<and>
        (first_failure rnd added = None \<longrightarrow> m page = m0 page) \<and>
        (\<forall>k e. first_failure rnd added = Some (k, e) \<longrightarrow> m page = (page @ take k added, Inl e))"
  shows "cut_of rnd m m0"
  unfolding cut_of_def
proof
  fix page
  from assms[of page] obtain added where a: "fst (m0 page) = page @ added"
    and n: "first_failure rnd added = None \<longrightarrow> m page = m0 page"
    and s: "\<forall>k e. first_failure rnd added = Some (k, e) \<longrightarrow> m page = (page @ take k added, Inl e)"
    by (elim exE conjE)
  have "case first_failure rnd added of
          None \<Rightarrow> m page = m0 page
        | Some (k, e) \<Rightarrow> m page = (page @ take k added, Inl e)"
  proof (cases "first_failure rnd added")
    case None
    with n show ?thesis by simp
  next
    case (Some ke)
    obtain k e where "ke = (k, e)" by (cases ke)
    with Some s show ?thesis by simp
  qed
  with a show "\<exists>added. fst (m0 page) = page @ added \<and>
        (case first_failure rnd added of
           None \<Rightarrow> m page = m0 page
         | Some (k, e) \<Rightarrow> m page = (page @ take k added, Inl e))"
    by (intro exI[of _ added] conjI)
qed

lemma cut_of_emit: "cut_of rnd (emit rnd el) (emit (\<lambda>el. None) el)"
proof (rule cut_ofI)
  fix page
  have "fst (emit (\<lambda>el. None) el page) = page @ [el]"
    by (simp add: emit_def)
  moreover have "first_failure rnd [el] = None \<longrightarrow> emit rnd el page = emit (\<lambda>el. None) el page"
    by (simp add: emit_def split: option.splits)
  moreover have "\<forall>k e. first_failure rnd [el] = Some (k, e)
      \<longrightarrow> emit rnd el page = (page @ take k [el], Inl e)"
    by (simp add: emit_def split: option.splits)
  ultimately show "\<exists>added. fst (emit (\<lambda>el. None) el page) = page @ added \<and>
        (first_failure rnd added = None \<longrightarrow> emit rnd el page = emit (\<lambda>el. None) el page) \<and>
        (\<forall>k e. first_failure rnd added = Some (k, e)
           \<longrightarrow> emit rnd el page = (page @ take k added, Inl e))"
    by (intro exI[of _ "[el]"] conjI)
qed

lemma cut_of_lift: "cut_of rnd (lift r) (lift r)"
proof (rule cut_ofI)
  fix page
  show "\<exists>added. fst (lift r page) = page @ added \<and>
        (first_failure rnd added = None \<longrightarrow> lift r page = lift r page) \<and>
        (\<forall>k e. first_failure rnd added = Some (k, e)
           \<longrightarrow> lift r page = (page @ take k added, Inl e))"
    by (intro exI[of _ "[]"]) (simp add: lift_def)
qed

lemma cut_of_if:
  "cut_of rnd a a0 \<Longrightarrow> cut_of rnd b b0 \<Longrightarrow> cut_of rnd (if c then a else b) (if c then a0 else b0)"
  by simp

lemma cut_of_bind:
  assumes m: "cut_of rnd m m0" and f: "\<And>x. cut_of rnd (f x) (f0 x)"
  shows "cut_of rnd (bind_ui m f) (bind_ui m0 f0)"
proof (rule cut_ofI)
  fix page
  obtain p1 r1 where m0: "m0 page = (p1, r1)"
    by (cases "m0 page")
  from cut_ofD[OF m, of page] obtain a1 where a1: "fst (m0 page) = page @ a1"
    and n1': "first_failure rnd a1 = None \<longrightarrow> m page = m0 page"
    and s1': "\<forall>k e. first_failure rnd a1 = Some (k, e) \<longrightarrow> m page = (page @ take k a1, Inl e)"
    by (elim exE conjE)
  from n1' have n1: "first_failure rnd a1 = None \<Longrightarrow> m page = m0 page"
    by (rule mp)
  from s1' have s1: "\<And>k e. first_failure rnd a1 = Some (k, e) \<Longrightarrow> m page = (page @ take k a1, Inl e)"
    by simp
  from a1 m0 have p1: "p1 = page @ a1"
    by simp
  show "\<exists>added. fst (bind_ui m0 f0 page) = page @ added \<and>
        (first_failure rnd added = None \<longrightarrow> bind_ui m f page = bind_ui m0 f0 page) \<and>
        (\<forall>k e. first_failure rnd added = Some (k, e)
           \<longrightarrow> bind_ui m f page = (page @ take k added, Inl e))"
  proof (cases r1)
    case (Inl e1)
    with m0 have b0: "bind_ui m0 f0 page = (p1, Inl e1)"
      by (simp add: bind_ui_Inl)
    have "first_failure rnd a1 = None \<longrightarrow> bind_ui m f page = bind_ui m0 f0 page"
      using n1 m0 Inl b0 by (simp add: bind_ui_Inl)
    moreover have "\<forall>k e. first_failure rnd a1 = Some (k, e)
        \<longrightarrow> bind_ui m f page = (page @ take k a1, Inl e)"
      using s1 by (simp add: bind_ui_Inl)
    moreover have "fst (bind_ui m0 f0 page) = page @ a1"
      using b0 p1 by simp
    ultimately show ?thesis
      by (intro exI[of _ a1] conjI)
  next
    case (Inr x)
    with m0 have b0: "bind_ui m0 f0 page = f0 x p1"
      by (simp add: bind_ui_Inr)
    from cut_ofD[OF f, of x p1] obtain a2 where a2: "fst (f0 x p1) = p1 @ a2"
      and n2': "first_failure rnd a2 = None \<longrightarrow> f x p1 = f0 x p1"
      and s2': "\<forall>k e. first_failure rnd a2 = Some (k, e) \<longrightarrow> f x p1 = (p1 @ take k a2, Inl e)"
      by (elim exE conjE)
    from n2' have n2: "first_failure rnd a2 = None \<Longrightarrow> f x p1 = f0 x p1"
      by (rule mp)
    from s2' have s2: "\<And>k e. first_failure rnd a2 = Some (k, e) \<Longrightarrow> f x p1 = (p1 @ take k a2, Inl e)"
      by simp
    have fst0: "fst (bind_ui m0 f0 page) = page @ (a1 @ a2)"
      using b0 a2 p1 by simp
    have none: "bind_ui m f page = bind_ui m0 f0 page" if "first_failure rnd (a1 @ a2) = None"
    proof -
      from that have f1: "first_failure rnd a1 = None"
        by (cases "first_failure rnd a1") (auto dest: first_failure_append_Some[where ys = a2])
      with that have f2: "first_failure rnd a2 = None"
        by (cases "first_failure rnd a2") (auto simp: first_failure_append_None)
      from n1[OF f1] m0 Inr have "bind_ui m f page = f x p1"
        by (simp add: bind_ui_Inr)
      with n2[OF f2] b0 show ?thesis by simp
    qed
    have some: "bind_ui m f page = (page @ take k (a1 @ a2), Inl e)"
      if ff: "first_failure rnd (a1 @ a2) = Some (k, e)" for k e
    proof (cases "first_failure rnd a1")
      case (Some ke)
      obtain k1 e1 where ke: "ke = (k1, e1)" by (cases ke)
      from first_failure_append_Some[of rnd a1 k1 e1 a2] Some ke ff
      have "k = k1" "e = e1" "k1 < length a1"
        by simp_all
      with s1[of k1 e1] Some ke show ?thesis
        by (simp add: bind_ui_Inl)
    next
      case None
      with ff obtain k2 where f2: "first_failure rnd a2 = Some (k2, e)" and k: "k = length a1 + k2"
        by (cases "first_failure rnd a2") (auto simp: first_failure_append_None)
      from n1[OF None] m0 Inr have "bind_ui m f page = f x p1"
        by (simp add: bind_ui_Inr)
      with s2[OF f2] p1 k show ?thesis by simp
    qed
    from none have none': "first_failure rnd (a1 @ a2) = None
        \<longrightarrow> bind_ui m f page = bind_ui m0 f0 page"
      by (rule impI)
    from some have some': "\<forall>k e. first_failure rnd (a1 @ a2) = Some (k, e)
        \<longrightarrow> bind_ui m f page = (page @ take k (a1 @ a2), Inl e)"
      by (intro allI impI)
    from fst0 none' some' show ?thesis
      by (intro exI[of _ "a1 @ a2"] conjI)
  qed
qed

lemma cut_of_remove_duplicates:
  "cut_of rnd (remove_duplicates rnd df) (remove_duplicates (\<lambda>el. None) df)"
  unfolding remove_duplicates_def Let_def
  by (intro cut_of_bind cut_of_emit cut_of_lift)

lemma ideal_fields:
  "render (ideal ev) = (\<lambda>el. None)" "read_file (ideal ev) f = read_file ev f"
  "plot (ideal ev) = plot ev" "to_csv (ideal ev) = to_csv ev" "to_excel (ideal ev) = to_excel ev"
  by (simp_all add: ideal_def read_file_def)

lemma cut_of_upload_pipeline:
  "cut_of (render ev) (upload_pipeline ev w f) (upload_pipeline (ideal ev) w f)"
  unfolding upload_pipeline_def preview_section_def cleaning_section_def
    visualization_section_def download_section_def ideal_fields
  by (intro cut_of_bind cut_of_emit cut_of_lift cut_of_if cut_of_remove_duplicates)

lemma upload_pipeline_cut:
  "upload_pipeline ev w f [] = cut (render ev) (upload_pipeline (ideal ev) w f [])"
proof -
  from cut_ofD[OF cut_of_upload_pipeline, of ev w f "[]"] obtain added
    where a: "fst (upload_pipeline (ideal ev) w f []) = [] @ added"
      and n: "first_failure (render ev) added = None
              \<longrightarrow> upload_pipeline ev w f [] = upload_pipeline (ideal ev) w f []"
      and s': "\<forall>k e. first_failure (render ev) added = Some (k, e)
              \<longrightarrow> upload_pipeline ev w f [] = ([] @ take k added, Inl e)"
    by (elim exE conjE)
  from s' have s: "\<And>k e. first_failure (render ev) added = Some (k, e)
              \<Longrightarrow> upload_pipeline ev w f [] = ([] @ take k added, Inl e)"
    by simp
  show ?thesis
  proof (cases "first_failure (render ev) added")
    case None
    with n a show ?thesis by (simp add: cut_def)
  next
    case (Some ke)
    obtain k e where "ke = (k, e)" by (cases ke)
    with Some s[of k e] a show ?thesis by (simp add: cut_def)
  qed
qed

lemma quietD:
  "quiet m \<Longrightarrow> m page = (p, r) \<Longrightarrow>
     \<exists>added. p = page @ added \<and> list_all (\<lambda>el. \<not> is_error el) added"
  unfolding quiet_def by (elim allE impE) assumption+

lemma quiet_emit: "\<not> is_error el \<Longrightarrow> quiet (emit rnd el)"
  by (auto simp: quiet_def emit_def split: option.splits)

lemma quiet_lift: "quiet (lift r)"
  by (simp add: quiet_def lift_def)

lemma quiet_if: "quiet a \<Longrightarrow> quiet b \<Longrightarrow> quiet (if c then a else b)"
  by simp

lemma quiet_bind:
  assumes m: "quiet m" and f: "\<And>x. quiet (f x)"
  shows "quiet (bind_ui m f)"
  unfolding quiet_def
proof (intro allI impI)
  fix page p r
  assume b: "bind_ui m f page = (p, r)"
  obtain p1 r1 where mp: "m page = (p1, r1)"
    by (cases "m page")
  from quietD[OF m mp] obtain a1 where a1: "p1 = page @ a1" "list_all (\<lambda>el. \<not> is_error el) a1"
    by (elim exE conjE)
  show "\<exists>added. p = page @ added \<and> list_all (\<lambda>el. \<not> is_error el) added"
  proof (cases r1)
    case (Inl e)
    with mp have "bind_ui m f page = (p1, Inl e)"
      by (simp add: bind_ui_Inl)
    with b have "p = p1" by simp
    with a1 show ?thesis by (intro exI[of _ a1]) simp
  next
    case (Inr x)
    with mp have "bind_ui m f page = f x p1"
      by (simp add: bind_ui_Inr)
    with b have "f x p1 = (p, r)" by simp
    from quietD[OF f this] obtain a2 where a2: "p = p1 @ a2" "list_all (\<lambda>el. \<not> is_error el) a2"
      by (elim exE conjE)
    with a1 show ?thesis by (intro exI[of _ "a1 @ a2"]) simp
  qed
qed

lemma not_error_events:
  "\<not> is_error (SubHeader s)" "\<not> is_error (Dataframe t)" "\<not> is_error (Columns n)"
  "\<not> is_error (Checkbox s)" "\<not> is_error (Selectbox s opts)" "\<not> is_error (Info s)"
  "\<not> is_error (Chart g)" "\<not> is_error (Download l d fn mt)"
  by (simp_all add: is_error_def)

lemma quiet_remove_duplicates: "quiet (remove_duplicates rnd df)"
  unfolding remove_duplicates_def Let_def
  by (intro quiet_bind quiet_emit quiet_lift not_error_events)

lemma quiet_upload_pipeline: "quiet (upload_pipeline ev w f)"
  unfolding upload_pipeline_def preview_section_def cleaning_section_def
    visualization_section_def download_section_def
  by (intro quiet_bind quiet_emit quiet_lift quiet_if quiet_remove_duplicates not_error_events)

lemma bind_emit_ideal: "bind_ui (emit (\<lambda>el. None) el) f page = f () (page @ [el])"
  by (simp add: bind_ui_def emit_def)

lemma emit_ideal: "emit (\<lambda>el. None) el page = (page @ [el], Inr ())"
  by (simp add: emit_def)

lemma bind_lift:
  "bind_ui (lift r) f page = (case r of Inl e \<Rightarrow> (page, Inl e) | Inr x \<Rightarrow> f x page)"
  by (simp add: bind_ui_def lift_def split: sum.split)

lemma bind_remove_duplicates_ideal:
  "bind_ui (remove_duplicates (\<lambda>el. None) df) f page
   = f (drop_duplicates df) (page @ [Info (removed_message df (drop_duplicates df))])"
  by (simp add: remove_duplicates_def Let_def bind_ui_def emit_def lift_def)

lemma preview_cleaning_ideal:
  "bind_ui (preview_section (ideal ev) df0) (\<lambda>_. cleaning_section (ideal ev) w df0) page
   = (page @ page_cleaning w df0, filled w df0)"
  unfolding preview_section_def cleaning_section_def ideal_fields
  by (simp add: bind_ui_def emit_def lift_def remove_duplicates_def Let_def
      filled_def deduped_def cleaned_def page_cleaning_def)

lemma visualization_ideal:
  "visualization_section (ideal ev) w df page
   = (case page_visualization ev w df of
        Inl e \<Rightarrow> (page @ page_plot_widgets df, Inl e)
      | Inr vis \<Rightarrow> (page @ vis, Inr ()))"
  unfolding visualization_section_def ideal_fields
  by (simp add: bind_ui_def emit_def lift_def page_visualization_def page_plot_widgets_def
      split: sum.split)

lemma download_ideal:
  "download_section (ideal ev) df page
   = (case to_csv ev df of
        Inl e \<Rightarrow> (page @ page_download, Inl e)
      | Inr csv \<Rightarrow>
          (case to_excel ev df of
             Inl e \<Rightarrow> (page @ page_download @ [csv_button csv], Inl e)
           | Inr excel_data \<Rightarrow>
               (page @ page_download @ [csv_button csv, excel_button excel_data], Inr ())))"
  unfolding download_section_def ideal_fields
  by (simp add: bind_ui_def emit_def lift_def page_download_def csv_button_def excel_button_def
      split: sum.split)

lemma bind_assoc: "bind_ui (bind_ui m f) g = bind_ui m (\<lambda>x. bind_ui (f x) g)"
  by (rule ext) (simp add: bind_ui_def split: prod.splits sum.splits)

lemma ideal_run:
  "upload_pipeline (ideal ev) w f [] =
     (case read_file ev f of
        Inl e \<Rightarrow> ([], Inl e)
      | Inr df0 \<Rightarrow>
          (case filled w df0 of
             Inl e \<Rightarrow> (page_cleaning w df0, Inl e)
           | Inr df3 \<Rightarrow>
               (case page_visualization ev w df3 of
                  Inl e \<Rightarrow> (page_cleaning w df0 @ page_plot_widgets df3, Inl e)
                | Inr vis \<Rightarrow>
                    (case to_csv ev df3 of
                       Inl e \<Rightarrow> (page_cleaning w df0 @ vis @ page_download, Inl e)
                     | Inr csv \<Rightarrow>
                         (case to_excel ev df3 of
                            Inl e \<Rightarrow>
                              (page_cleaning w df0 @ vis @ page_download @ [csv_button csv], Inl e)
                          | Inr excel_data \<Rightarrow>
                              (page_cleaning w df0 @ vis @ page_download
                                 @ [csv_button csv, excel_button excel_data], Inr ()))))))"
proof (cases "read_file ev f")
  case (Inl e)
  then show ?thesis
    unfolding upload_pipeline_def ideal_fields by (simp add: bind_ui_def lift_def)
next
  case (Inr df0)
  let ?rest = "\<lambda>df. bind_ui (visualization_section (ideal ev) w df) (\<lambda>_. download_section (ideal ev) df)"
  have "upload_pipeline (ideal ev) w f []
        = bind_ui (preview_section (ideal ev) df0)
            (\<lambda>_. bind_ui (cleaning_section (ideal ev) w df0) ?rest) []"
    unfolding upload_pipeline_def ideal_fields using Inr
    by (simp add: bind_ui_def[of "lift (Inr df0)"] lift_def)
  also have "\<dots> = bind_ui (bind_ui (preview_section (ideal ev) df0)
                            (\<lambda>_. cleaning_section (ideal ev) w df0)) ?rest []"
    by (simp only: bind_assoc)
  also have "\<dots> = (case filled w df0 of
                     Inl e \<Rightarrow> (page_cleaning w df0, Inl e)
                   | Inr df3 \<Rightarrow> ?rest df3 (page_cleaning w df0))"
    by (simp add: bind_ui_def[of "bind_ui (preview_section (ideal ev) df0) (\<lambda>_. cleaning_section (ideal ev) w df0)"]
        preview_cleaning_ideal split: sum.split)
  finally have a: "upload_pipeline (ideal ev) w f []
        = (case filled w df0 of
             Inl e \<Rightarrow> (page_cleaning w df0, Inl e)
           | Inr df3 \<Rightarrow> ?rest df3 (page_cleaning w df0))" .
  have b: "?rest df3 page
        = (case page_visualization ev w df3 of
             Inl e \<Rightarrow> (page @ page_plot_widgets df3, Inl e)
           | Inr vis \<Rightarrow>
               (case to_csv ev df3 of
                  Inl e \<Rightarrow> (page @ vis @ page_download, Inl e)
                | Inr csv \<Rightarrow>
                    (case to_excel ev df3 of
                       Inl e \<Rightarrow> (page @ vis @ page_download @ [csv_button csv], Inl e)
                     | Inr excel_data \<Rightarrow>
                         (page @ vis @ page_download
                            @ [csv_button csv, excel_button excel_data], Inr ()))))" for df3 page
    by (simp add: bind_ui_def[of "visualization_section (ideal ev) w df3"]
        visualization_ideal download_ideal split: sum.split)
  show ?thesis
    unfolding a b Inr by simp
qed

text \<open>
  C9.  Without an uploaded file nothing is shown.  One run on an uploaded file puts
  elements on the page, none of them an error message, and either completes, or an exception
  \<open>e\<close> was raised and caught: then the page keeps what the steps before had put there and
  ends with exactly one error message, \<open>An error occurred: \<close> followed by the description
  of \<open>e\<close>.  The run is the run with a Streamlit that never raises, cut at the first element
  whose Streamlit call raises.  That run stops at the first collaborator that raises: the
  file reader (nothing is shown), \<^verbatim>\<open>handle_missing_values\<close> (the page ends with the
  cleaning options), the plotting library (the page ends with the plot widgets), the CSV
  encoder (the page ends with the download header), the Excel encoder (the page ends with
  the CSV button); no later step is run.  When none raises, the page ends with the two
  download buttons.
\<close>

theorem upload_pipeline_error_boundary:
  "run_upload ev w None = []
   \<and> (\<exists>page. list_all (\<lambda>el. \<not> is_error el) page
         \<and> ((upload_pipeline ev w f [] = (page, Inr ())
               \<and> run_upload ev w (Some f) = page)
            \<or> (\<exists>e. upload_pipeline ev w f [] = (page, Inl e)
                   \<and> run_upload ev w (Some f)
                       = page @ [Error (''An error occurred: '' @ describe ev e)])))
   \<and> upload_pipeline ev w f [] = cut (render ev) (upload_pipeline (ideal ev) w f [])
   \<and> upload_pipeline (ideal ev) w f [] =
       (case read_file ev f of
          Inl e \<Rightarrow> ([], Inl e)
        | Inr df0 \<Rightarrow>
            (case filled w df0 of
               Inl e \<Rightarrow> (page_cleaning w df0, Inl e)
             | Inr df3 \<Rightarrow>
                 (case page_visualization ev w df3 of
                    Inl e \<Rightarrow> (page_cleaning w df0 @ page_plot_widgets df3, Inl e)
                  | Inr vis \<Rightarrow>
                      (case to_csv ev df3 of
                         Inl e \<Rightarrow> (page_cleaning w df0 @ vis @ page_download, Inl e)
                       | Inr csv \<Rightarrow>
                           (case to_excel ev df3 of
                              Inl e \<Rightarrow>
                                (page_cleaning w df0 @ vis @ page_download @ [csv_button csv],
                                 Inl e)
                            | Inr excel_data \<Rightarrow>
                                (page_cleaning w df0 @ vis @ page_download
                                   @ [csv_button csv, excel_button excel_data], Inr ()))))))"
proof (intro conjI)
  show "run_upload ev w None = []"
    by (simp add: run_upload_def)
next
  obtain p r where pr: "upload_pipeline ev w f [] = (p, r)"
    by (cases "upload_pipeline ev w f []")
  from quietD[OF quiet_upload_pipeline pr] have q: "list_all (\<lambda>el. \<not> is_error el) p"
    by simp
  show "\<exists>page. list_all (\<lambda>el. \<not> is_error el) page
         \<and> ((upload_pipeline ev w f [] = (page, Inr ())
               \<and> run_upload ev w (Some f) = page)
            \<or> (\<exists>e. upload_pipeline ev w f [] = (page, Inl e)
                   \<and> run_upload ev w (Some f)
                       = page @ [Error (''An error occurred: '' @ describe ev e)]))"
  proof (cases r)
    case (Inl e)
    with pr have "upload_pipeline ev w f [] = (p, Inl e)"
      and "run_upload ev w (Some f) = p @ [Error (''An error occurred: '' @ describe ev e)]"
      by (simp_all add: run_upload_def)
    with q show ?thesis by blast
  next
    case (Inr u)
    with pr have "upload_pipeline ev w f [] = (p, Inr ())"
      and "run_upload ev w (Some f) = p"
      by (simp_all add: run_upload_def)
    with q show ?thesis by blast
  qed
next
  show "upload_pipeline ev w f [] = cut (render ev) (upload_pipeline (ideal ev) w f [])"
    by (rule upload_pipeline_cut)
next
  show "upload_pipeline (ideal ev) w f [] =
       (case read_file ev f of
          Inl e \<Rightarrow> ([], Inl e)
        | Inr df0 \<Rightarrow>
            (case filled w df0 of
               Inl e \<Rightarrow> (page_cleaning w df0, Inl e)
             | Inr df3 \<Rightarrow>
                 (case page_visualization ev w df3 of
                    Inl e \<Rightarrow> (page_cleaning w df0 @ page_plot_widgets df3, Inl e)
                  | Inr vis \<Rightarrow>
                      (case to_csv ev df3 of
                         Inl e \<Rightarrow> (page_cleaning w df0 @ vis @ page_download, Inl e)
                       | Inr csv \<Rightarrow>
                           (case to_excel ev df3 of
                              Inl e \<Rightarrow>
                                (page_cleaning w df0 @ vis @ page_download @ [csv_button csv],
                                 Inl e)
                            | Inr excel_data \<Rightarrow>
                                (page_cleaning w df0 @ vis @ page_download
                                   @ [csv_button csv, excel_button excel_data], Inr ()))))))"
    by (rule ideal_run)
qed

text \<open>
  C9, three runs.  In the first the columns \<open>Name\<close> (text) and \<open>name\<close> (numeric) share
  a label after \<^verbatim>\<open>clean_column_names\<close>, and \<^verbatim>\<open>handle_missing_values\<close> raises a
  \<^verbatim>\<open>TypeError\<close> for the mean of the text column.  In the second the CSV encoder raises.
  In the third the Streamlit call that shows the chart raises.
\<close>

theorem upload_pipeline_error_boundary_witness:
  "run_upload
     \<lparr>read_csv = (\<lambda>u. Inr [\<lparr>name = ''Name'', dtype = Object, cells = [Text ''x'', Missing]\<rparr>,
                           \<lparr>name = ''name'', dtype = Number, cells = [Num 1, Missing]\<rparr>]),
      read_excel = (\<lambda>u. Inr []),
      plot = (\<lambda>k t x y. Inr ''figure''),
      to_csv = (\<lambda>t. Inr ''csv''),
      to_excel = (\<lambda>t. Inr ''xlsx''),
      render = (\<lambda>el. None),
      describe = (\<lambda>e. case e of TypeError \<Rightarrow> ''Could not convert to numeric''
                              | KeyError k \<Rightarrow> k | Fault s \<Rightarrow> s)\<rparr>
     \<lparr>clean_cols = True, remove_dups = False, missing_method = ''Fill with mean'',
      x_col = ''name'', y_col = ''name'', plot_type = ''Scatter''\<rparr>
     (Some \<lparr>file_name = ''data.csv'', content = ''Name,name''\<rparr>)
   = [SubHeader ''Data Preview'',
      Dataframe [\<lparr>name = ''Name'', dtype = Object, cells = [Text ''x'', Missing]\<rparr>,
                 \<lparr>name = ''name'', dtype = Number, cells = [Num 1, Missing]\<rparr>],
      SubHeader ''Data Cleaning Options'', Columns 3,
      Checkbox ''Clean column names'', Checkbox ''Remove duplicate rows'',
      Selectbox ''Handle missing values''
        [''Remove rows'', ''Fill with mean'', ''Fill with median'', ''Fill with zero''],
      Error ''An error occurred: Could not convert to numeric'']
   \<and> run_upload
     \<lparr>read_csv = (\<lambda>u. Inr [\<lparr>name = ''A'', dtype = Object, cells = [Text ''x'', Text ''x'']\<rparr>]),
      read_excel = (\<lambda>u. Inr []),
      plot = (\<lambda>k t x y. Inr ''figure''),
      to_csv = (\<lambda>t. Inl (Fault ''cannot encode'')),
      to_excel = (\<lambda>t. Inr ''xlsx''),
      render = (\<lambda>el. None),
      describe = (\<lambda>e. case e of TypeError \<Rightarrow> ''Could not convert to numeric''
                              | KeyError k \<Rightarrow> k | Fault s \<Rightarrow> s)\<rparr>
     \<lparr>clean_cols = True, remove_dups = True, missing_method = ''Remove rows'',
      x_col = ''a'', y_col = ''a'', plot_type = ''Scatter''\<rparr>
     (Some \<lparr>file_name = ''data.csv'', content = ''A''\<rparr>)
   = [SubHeader ''Data Preview'',
      Dataframe [\<lparr>name = ''A'', dtype = Object, cells = [Text ''x'', Text ''x'']\<rparr>],
      SubHeader ''Data Cleaning Options'', Columns 3,
      Checkbox ''Clean column names'', Checkbox ''Remove duplicate rows'',
      Info ''Removed 1 duplicate rows'',
      SubHeader ''Data Visualization'', Columns 3,
      SubHeader ''Download Cleaned Data'', Columns 2,
      Error ''An error occurred: cannot encode'']
   \<and> run_upload
     \<lparr>read_csv = (\<lambda>u. Inr []),
      read_excel = (\<lambda>u. Inr [\<lparr>name = ''n'', dtype = Number, cells = [Num 1, Num 2]\<rparr>]),
      plot = (\<lambda>k t x y. Inr ''figure''),
      to_csv = (\<lambda>t. Inr ''csv''),
      to_excel = (\<lambda>t. Inr ''xlsx''),
      render = (\<lambda>el. case el of Chart g \<Rightarrow> Some (Fault ''cannot show'') | _ \<Rightarrow> None),
      describe = (\<lambda>e. case e of TypeError \<Rightarrow> ''Could not convert to numeric''
                              | KeyError k \<Rightarrow> k | Fault s \<Rightarrow> s)\<rparr>
     \<lparr>clean_cols = False, remove_dups = False, missing_method = ''Remove rows'',
      x_col = ''n'', y_col = ''n'', plot_type = ''Line''\<rparr>
     (Some \<lparr>file_name = ''data.xlsx'', content = ''n''\<rparr>)
   = [SubHeader ''Data Preview'',
      Dataframe [\<lparr>name = ''n'', dtype = Number, cells = [Num 1, Num 2]\<rparr>],
      SubHeader ''Data Cleaning Options'', Columns 3,
      Checkbox ''Clean column names'', Checkbox ''Remove duplicate rows'',
      SubHeader ''Data Visualization'', Columns 3,
      Selectbox ''X-axis'' [''n''], Selectbox ''Y-axis'' [''n''],
      Selectbox ''Plot type'' [''Scatter'', ''Line'', ''Bar'', ''Box'', ''Histogram''],
      Error ''An error occurred: cannot show'']"
proof -
  let ?df0 = "[\<lparr>name = ''Name'', dtype = Object, cells = [Text ''x'', Missing]\<rparr>,
               \<lparr>name = ''name'', dtype = Number, cells = [Num 1, Missing]\<rparr>]"
  let ?d = "\<lambda>e. case e of TypeError \<Rightarrow> ''Could not convert to numeric''
                              | KeyError k \<Rightarrow> k | Fault s \<Rightarrow> s"
  let ?ev = "\<lparr>read_csv = (\<lambda>u. Inr ?df0),
      read_excel = (\<lambda>u. Inr []),
      plot = (\<lambda>k t x y. Inr ''figure''),
      to_csv = (\<lambda>t. Inr ''csv''),
      to_excel = (\<lambda>t. Inr ''xlsx''),
      render = (\<lambda>el. None),
      describe = ?d\<rparr>"
  let ?w = "\<lparr>clean_cols = True, remove_dups = False, missing_method = ''Fill with mean'',
      x_col = ''name'', y_col = ''name'', plot_type = ''Scatter''\<rparr>"
  let ?f = "\<lparr>file_name = ''data.csv'', content = ''Name,name''\<rparr>"
  let ?page = "[SubHeader ''Data Preview'', Dataframe ?df0,
      SubHeader ''Data Cleaning Options'', Columns 3,
      Checkbox ''Clean column names'', Checkbox ''Remove duplicate rows'',
      Selectbox ''Handle missing values''
        [''Remove rows'', ''Fill with mean'', ''Fill with median'', ''Fill with zero'']]"
  have r: "read_file ?ev ?f = Inr ?df0"
    by (simp add: read_file_def endswith_def)
  have fl: "filled ?w ?df0 = Inl TypeError"
    by code_simp
  have pc: "page_cleaning ?w ?df0 = ?page"
    by code_simp
  note t = upload_pipeline_error_boundary[of ?ev ?w ?f]
  have c: "upload_pipeline ?ev ?w ?f [] = cut (render ?ev) (upload_pipeline (ideal ?ev) ?w ?f [])"
    by (rule t[THEN conjunct2, THEN conjunct2, THEN conjunct1])
  have i: "upload_pipeline (ideal ?ev) ?w ?f [] = (page_cleaning ?w ?df0, Inl TypeError)"
    using t[THEN conjunct2, THEN conjunct2, THEN conjunct2] by (simp add: r fl)
  have "first_failure (\<lambda>el. None) ?page = None"
    by simp
  with c i pc have "upload_pipeline ?ev ?w ?f [] = (?page, Inl TypeError)"
    by (simp add: cut_def)
  then have a: "run_upload ?ev ?w (Some ?f)
      = ?page @ [Error ''An error occurred: Could not convert to numeric'']"
    by (simp add: run_upload_def)
  have b: "run_upload
     \<lparr>read_csv = (\<lambda>u. Inr [\<lparr>name = ''A'', dtype = Object, cells = [Text ''x'', Text ''x'']\<rparr>]),
      read_excel = (\<lambda>u. Inr []),
      plot = (\<lambda>k t x y. Inr ''figure''),
      to_csv = (\<lambda>t. Inl (Fault ''cannot encode'')),
      to_excel = (\<lambda>t. Inr ''xlsx''),
      render = (\<lambda>el. None),
      describe = ?d\<rparr>
     \<lparr>clean_cols = True, remove_dups = True, missing_method = ''Remove rows'',
      x_col = ''a'', y_col = ''a'', plot_type = ''Scatter''\<rparr>
     (Some \<lparr>file_name = ''data.csv'', content = ''A''\<rparr>)
   = [SubHeader ''Data Preview'',
      Dataframe [\<lparr>name = ''A'', dtype = Object, cells = [Text ''x'', Text ''x'']\<rparr>],
      SubHeader ''Data Cleaning Options'', Columns 3,
      Checkbox ''Clean column names'', Checkbox ''Remove duplicate rows'',
      Info ''Removed 1 duplicate rows'',
      SubHeader ''Data Visualization'', Columns 3,
      SubHeader ''Download Cleaned Data'', Columns 2,
      Error ''An error occurred: cannot encode'']"
    by code_simp
  have d: "run_upload
     \<lparr>read_csv = (\<lambda>u. Inr []),
      read_excel = (\<lambda>u. Inr [\<lparr>name = ''n'', dtype = Number, cells = [Num 1, Num 2]\<rparr>]),
      plot = (\<lambda>k t x y. Inr ''figure''),
      to_csv = (\<lambda>t. Inr ''csv''),
      to_excel = (\<lambda>t. Inr ''xlsx''),
      render = (\<lambda>el. case el of Chart g \<Rightarrow> Some (Fault ''cannot show'') | _ \<Rightarrow> None),
      describe = ?d\<rparr>
     \<lparr>clean_cols = False, remove_dups = False, missing_method = ''Remove rows'',
      x_col = ''n'', y_col = ''n'', plot_type = ''Line''\<rparr>
     (Some \<lparr>file_name = ''data.xlsx'', content = ''n''\<rparr>)
   = [SubHeader ''Data Preview'',
      Dataframe [\<lparr>name = ''n'', dtype = Number, cells = [Num 1, Num 2]\<rparr>],
      SubHeader ''Data Cleaning Options'', Columns 3,
      Checkbox ''Clean column names'', Checkbox ''Remove duplicate rows'',
      SubHeader ''Data Visualization'', Columns 3,
      Selectbox ''X-axis'' [''n''], Selectbox ''Y-axis'' [''n''],
      Selectbox ''Plot type'' [''Scatter'', ''Line'', ''Bar'', ''Box'', ''Histogram''],
      Error ''An error occurred: cannot show'']"
    by code_simp
  from a b d show ?thesis
    by simp
qed

end
